theory Spec2Isabelle
  imports Main "HOL-Library.Char_ord" "HOL-Library.List_Lexorder" "HOL-Library.Multiset"
begin

section \<open>Text helpers (Python \<open>str\<close> methods used by the tool)\<close>

text \<open>
  Cell text is modelled as \<^typ>\<open>string\<close>. Barcode sequences, index IDs and lane cells are
  ASCII text; the whitespace class and the case mapping below are Python's
  \<^verbatim>\<open>str.isspace\<close> and \<^verbatim>\<open>str.upper\<close> on ASCII characters
  (TAB, LF, VT, FF, CR, FS, GS, RS, US and the blank are the ASCII characters that
  \<^verbatim>\<open>str.strip()\<close> and the regular expression class \<^verbatim>\<open>\s\<close> remove or match).
  The content of a missing cell (\<^verbatim>\<open>None\<close>, \<^verbatim>\<open>NaN\<close>, \<^verbatim>\<open>pd.NA\<close>) is \<^term>\<open>None\<close>.
\<close>

definition is_space :: "char \<Rightarrow> bool" where
  "is_space c = (c \<in> set [CHR 0x09, CHR 0x0A, CHR 0x0B, CHR 0x0C, CHR 0x0D,
                          CHR 0x1C, CHR 0x1D, CHR 0x1E, CHR 0x1F, CHR '' ''])"

definition strip :: "string \<Rightarrow> string" where
  "strip s = rev (dropWhile is_space (rev (dropWhile is_space s)))"

definition lower_letters :: string where
  "lower_letters = ''abcdefghijklmnopqrstuvwxyz''"

definition upper_letters :: string where
  "upper_letters = ''ABCDEFGHIJKLMNOPQRSTUVWXYZ''"

definition upper_char :: "char \<Rightarrow> char" where
  "upper_char c = (case map_of (zip lower_letters upper_letters) c of Some u \<Rightarrow> u | None \<Rightarrow> c)"

definition lower_char :: "char \<Rightarrow> char" where
  "lower_char c = (case map_of (zip upper_letters lower_letters) c of Some u \<Rightarrow> u | None \<Rightarrow> c)"

definition upper :: "string \<Rightarrow> string" where
  "upper s = map upper_char s"

definition lower :: "string \<Rightarrow> string" where
  "lower s = map lower_char s"

section \<open>utils.py\<close>

text \<open>
  \<^verbatim>\<open>_is_missing(x)\<close>: \<^verbatim>\<open>None\<close>, \<^verbatim>\<open>pd.isna(x)\<close> and float NaN are the missing cell.
\<close>

definition is_missing :: "string option \<Rightarrow> bool" where
  "is_missing x = (x = None)"

text \<open>
  \<^verbatim>\<open>normalize_seq\<close>: \<^verbatim>\<open>v = str(s).strip().upper().replace(" ", "")\<close>, absent when
  \<^verbatim>\<open>v in {"", "NAN", "NA", "NONE"}\<close>.
\<close>

definition missing_tokens :: "string list" where
  "missing_tokens = ['''', ''NAN'', ''NA'', ''NONE'']"

definition normalize_seq :: "string option \<Rightarrow> string option" where
  "normalize_seq s =
     (if is_missing s then None
      else case s of
        None \<Rightarrow> None
      | Some t \<Rightarrow>
          (let v = filter (\<lambda>c. c \<noteq> CHR '' '') (upper (strip t))
           in if v \<in> set missing_tokens then None else Some v))"

text \<open>
  \<^verbatim>\<open>hamming\<close>: both arguments are normalized again; the distance is undefined when one is
  absent or the lengths differ, else it counts the positions of \<^verbatim>\<open>zip(a, b)\<close> that differ.
\<close>

definition hamming :: "string option \<Rightarrow> string option \<Rightarrow> nat option" where
  "hamming a b =
     (case (normalize_seq a, normalize_seq b) of
        (Some a', Some b') \<Rightarrow>
          if length a' \<noteq> length b' then None
          else Some (length (filter (\<lambda>(ch1, ch2). ch1 \<noteq> ch2) (zip a' b')))
      | _ \<Rightarrow> None)"

text \<open>
  \<^verbatim>\<open>Problem\<close> (a frozen dataclass). The message is kept as the list of the texts
  interpolated into it (IDs, sample IDs, sequences): its fixed wording and the numbers it
  prints are determined by the code and the lane.
\<close>

datatype level = ERROR | WARN | INFO

datatype problem =
  Problem (level: level) (code: string) (message: "string list")
          (problem_lane: "int option") (problem_sample_id: "string option")

section \<open>config.py\<close>

definition DEFAULT_BARCODE_MISMATCHES :: int where
  "DEFAULT_BARCODE_MISMATCHES = 1"

definition HAMMING_WARN_TIGHTEN :: nat where
  "HAMMING_WARN_TIGHTEN = 1"

definition HAMMING_WARN :: nat where
  "HAMMING_WARN = 2"

definition HAMMING_OK_MIN :: nat where
  "HAMMING_OK_MIN = 3"

section \<open>The sample table\<close>

text \<open>
  A row of the sample table after lane expansion, with the canonical columns. A sequence
  cell is text or missing (\<^term>\<open>None\<close>, whatever the column stores for it); an ID cell is
  the text \<^verbatim>\<open>str()\<close> gives for it ("nan" for a missing ID). A Python
  \<^verbatim>\<open>dict\<close> is an association list in insertion order (its keys distinct); \<^verbatim>\<open>k in d\<close>
  and \<^verbatim>\<open>d[k]\<close> are \<^term>\<open>map_of\<close>.
\<close>

record sample_row =
  lane :: int
  sample_id :: string
  project_id :: string
  i7_id :: string
  i5_id :: string
  i7 :: "string option"
  i5 :: "string option"

type_synonym single_lookup = "(string \<times> string) list"
type_synonym pair_lookup = "(string \<times> (string \<times> string)) list"

section \<open>pandas columns\<close>

text \<open>
  pandas is not part of the repository, and its versions differ in how a column hands a
  missing cell back, so the kind of a column is a parameter of the model. An object column
  (what pandas before version 3 builds for text) holds Python objects: a missing result of
  \<^verbatim>\<open>map(normalize_seq)\<close> is stored and read back as \<^verbatim>\<open>None\<close>, and \<^verbatim>\<open>astype(str)\<close> turns a
  missing cell into the text "nan". A string column (what pandas 3 infers for a column that
  holds text) keeps a missing cell as \<^verbatim>\<open>NaN\<close>: it is read back as the float \<^verbatim>\<open>NaN\<close>, and
  \<^verbatim>\<open>astype(str)\<close> leaves it missing. What a row read gives is a \<open>cell\<close>; Python takes
  \<^verbatim>\<open>None\<close> and the empty text as false and \<^verbatim>\<open>NaN\<close>, a nonzero float, as true.
\<close>

datatype column_kind = ObjectColumn | StringColumn

datatype cell = NoneCell | NaNCell | TextCell string

definition read_cell :: "column_kind \<Rightarrow> string option \<Rightarrow> cell" where
  "read_cell k x =
     (case x of
        Some t \<Rightarrow> TextCell t
      | None \<Rightarrow> (case k of ObjectColumn \<Rightarrow> NoneCell | StringColumn \<Rightarrow> NaNCell))"

definition truthy :: "cell \<Rightarrow> bool" where
  "truthy c = (case c of NoneCell \<Rightarrow> False | NaNCell \<Rightarrow> True | TextCell t \<Rightarrow> t \<noteq> [])"

section \<open>resolve.py\<close>

text \<open>
  The passes over whole columns before the loop: sequences through \<^verbatim>\<open>normalize_seq\<close>,
  IDs through \<^verbatim>\<open>.astype(str).str.strip()\<close>.
\<close>

definition normalize_columns :: "sample_row \<Rightarrow> sample_row" where
  "normalize_columns r =
     r\<lparr>i7 := normalize_seq (i7 r), i5 := normalize_seq (i5 r),
       i7_id := strip (i7_id r), i5_id := strip (i5_id r)\<rparr>"

text \<open>
  \<^verbatim>\<open>i7_id = str(r[i7_id_col]).strip()\<close>, then
  \<^verbatim>\<open>"" if (not i7_id or i7_id.lower() == "nan") else i7_id\<close>.
\<close>

definition blank_id :: "string \<Rightarrow> string" where
  "blank_id x = (let v = strip x in if v = [] \<or> lower v = ''nan'' then [] else v)"

text \<open>
  Case 3 of the loop body, independent resolution, in its three blocks: resolve i7 if
  needed, resolve i5 if needed, and the final requirement on
  \<^verbatim>\<open>out.at[idx, i7_seq_col]\<close>. \<open>k7\<close> and \<open>k5\<close> are the kinds of the two sequence columns;
  \<open>i7_seq\<close> and \<open>i5_seq\<close> are what the columns hold for the row, and the tests are made on
  the cells read from them.
\<close>

definition resolve_i7 ::
  "column_kind \<Rightarrow> single_lookup \<Rightarrow> int option \<Rightarrow> string option \<Rightarrow> string option \<Rightarrow> string
     \<Rightarrow> string option \<times> problem list"
where
  "resolve_i7 k7 i7_lookup ln sid i7_seq i7id =
     (if \<not> truthy (read_cell k7 i7_seq) then
        (if i7id = [] then (i7_seq, [Problem ERROR ''I7_MISSING'' [] ln sid])
         else case map_of i7_lookup i7id of
                None \<Rightarrow> (i7_seq, [Problem ERROR ''I7_ID_NOT_FOUND'' [i7id] ln sid])
              | Some v \<Rightarrow> (normalize_seq (Some v), []))
      else (i7_seq, []))"

definition resolve_i5 ::
  "column_kind \<Rightarrow> single_lookup \<Rightarrow> int option \<Rightarrow> string option \<Rightarrow> string option \<Rightarrow> string
     \<Rightarrow> string option \<times> problem list"
where
  "resolve_i5 k5 i5_lookup ln sid i5_seq i5id =
     (if \<not> truthy (read_cell k5 i5_seq) \<and> i5id \<noteq> [] then
        (case map_of i5_lookup i5id of
           None \<Rightarrow> (i5_seq, [Problem ERROR ''I5_ID_NOT_FOUND'' [i5id] ln sid])
         | Some v \<Rightarrow> (normalize_seq (Some v), []))
      else (i5_seq, []))"

definition final_requirement ::
  "column_kind \<Rightarrow> int option \<Rightarrow> string option \<Rightarrow> string option \<Rightarrow> problem list"
where
  "final_requirement k7 ln sid i7_now =
     (if \<not> truthy (read_cell k7 i7_now) then [Problem ERROR ''I7_SEQUENCE_NOT_RESOLVED'' [] ln sid]
      else [])"

text \<open>
  The body of the loop over the rows (\<^verbatim>\<open>for idx, r in out.iterrows()\<close>): the row as
  written back by \<^verbatim>\<open>out.at[idx, ...]\<close>, and the problems appended for it. Every
  \<^verbatim>\<open>continue\<close> is a branch that returns. Row labels are unique (lane expansion
  renumbers them), so a write touches this row only. \<^verbatim>\<open>not pair_lookup\<close> holds of
  \<^verbatim>\<open>None\<close> and of the empty dictionary.
\<close>

definition resolve_row ::
  "column_kind \<Rightarrow> column_kind \<Rightarrow> single_lookup \<Rightarrow> single_lookup \<Rightarrow> pair_lookup option
     \<Rightarrow> sample_row \<Rightarrow> sample_row \<times> problem list"
where
  "resolve_row k7 k5 i7_lookup i5_lookup pair_lookup r =
     (let ln = Some (lane r);
          sid = Some (strip (sample_id r));
          i7_seq = i7 r;
          i5_seq = i5 r;
          i7id = blank_id (i7_id r);
          i5id = blank_id (i5_id r)
      in
        if truthy (read_cell k7 i7_seq) \<and> truthy (read_cell k5 i5_seq) then (r, [])
        else if i7id \<noteq> [] \<and> i5id \<noteq> [] \<and> i7id = i5id then
          (case pair_lookup of
             None \<Rightarrow> (r, [Problem ERROR ''PAIR_TABLE_NOT_PROVIDED'' [] ln sid])
           | Some pl \<Rightarrow>
               if pl = [] then (r, [Problem ERROR ''PAIR_TABLE_NOT_PROVIDED'' [] ln sid])
               else
                 (case map_of pl i7id of
                    None \<Rightarrow> (r, [Problem ERROR ''PAIR_ID_NOT_FOUND'' [i7id] ln sid])
                  | Some (seq_i7, seq_i5) \<Rightarrow>
                      (r\<lparr>i7 := normalize_seq (Some seq_i7), i5 := normalize_seq (Some seq_i5)\<rparr>, [])))
        else
          (let (i7', p1) = resolve_i7 k7 i7_lookup ln sid i7_seq i7id;
               (i5', p2) = resolve_i5 k5 i5_lookup ln sid i5_seq i5id;
               p3 = final_requirement k7 ln sid i7'
           in (r\<lparr>i7 := i7', i5 := i5'\<rparr>, p1 @ p2 @ p3)))"

text \<open>The final normalization pass over the two sequence columns.\<close>

definition final_pass :: "sample_row \<Rightarrow> sample_row" where
  "final_pass r = r\<lparr>i7 := normalize_seq (i7 r), i5 := normalize_seq (i5 r)\<rparr>"

text \<open>What \<^verbatim>\<open>resolve_indexes\<close> does to one row: the column passes around the loop body.\<close>

definition resolve_one ::
  "column_kind \<Rightarrow> column_kind \<Rightarrow> single_lookup \<Rightarrow> single_lookup \<Rightarrow> pair_lookup option
     \<Rightarrow> sample_row \<Rightarrow> sample_row \<times> problem list"
where
  "resolve_one k7 k5 i7_lookup i5_lookup pair_lookup r =
     (let (r', ps) = resolve_row k7 k5 i7_lookup i5_lookup pair_lookup (normalize_columns r)
      in (final_pass r', ps))"

text \<open>
  \<^verbatim>\<open>resolve_indexes\<close>: the resolved table and the problems, in row order. In the table
  returned a missing sequence is \<^term>\<open>None\<close> whatever the column stores for it.
\<close>

definition resolve_indexes ::
  "column_kind \<Rightarrow> column_kind \<Rightarrow> single_lookup \<Rightarrow> single_lookup \<Rightarrow> pair_lookup option
     \<Rightarrow> sample_row list \<Rightarrow> sample_row list \<times> problem list"
where
  "resolve_indexes k7 k5 i7_lookup i5_lookup pair_lookup df =
     (let out = map normalize_columns df;
          res = map (resolve_row k7 k5 i7_lookup i5_lookup pair_lookup) out
      in (map (final_pass \<circ> fst) res, concat (map snd res)))"

section \<open>indexes.py: loading tables\<close>

text \<open>
  A table as \<^verbatim>\<open>pd.read_csv\<close> returns it, with the named columns picked: a cell is
  text or missing. \<^verbatim>\<open>astype(str)\<close> on the ID column turns a missing cell into the text
  "nan" in an object column and leaves it missing in a string column. \<^verbatim>\<open>unique()\<close>
  keeps first occurrences in order, and \<^verbatim>\<open>duplicated(keep=False)\<close> marks every value
  that occurs more than once.
\<close>

definition astype_str :: "column_kind \<Rightarrow> string option \<Rightarrow> string option" where
  "astype_str k c =
     (case c of
        Some t \<Rightarrow> Some t
      | None \<Rightarrow> (case k of ObjectColumn \<Rightarrow> Some ''nan'' | StringColumn \<Rightarrow> None))"

definition pd_unique :: "'a list \<Rightarrow> 'a list" where
  "pd_unique xs = foldl (\<lambda>seen x. if x \<in> set seen then seen else seen @ [x]) [] xs"

definition duplicated_all :: "'a list \<Rightarrow> 'a \<Rightarrow> bool" where
  "duplicated_all xs x = (count_list xs x > 1)"

text \<open>
  The \<^verbatim>\<open>ValueError\<close>s of the two loaders, with the items their messages list and
  whether the truncation mark follows.
\<close>

datatype load_error =
  MissingSequence (listed: "string list") (truncated: bool)
| DuplicateId (listed: "string list") (truncated: bool)
| DuplicateSequence (listed: "string list") (truncated: bool)

text \<open>
  The canonical table of a single-index table: stripped IDs, normalized sequences, and only
  the rows that pass \<^verbatim>\<open>out["Index_ID"].astype(str).str.len() > 0\<close>: a row with an empty
  ID is dropped, and so is a row whose ID is still missing (the comparison of \<^verbatim>\<open>NaN\<close>
  with 0 is false). \<open>k\<close> is the kind of the ID column.
\<close>

definition single_rows ::
  "column_kind \<Rightarrow> (string option \<times> string option) list \<Rightarrow> (string \<times> string option) list"
where
  "single_rows k df =
     [(i, s). (Some i, s) \<leftarrow> map (\<lambda>(i, s). (map_option strip (astype_str k i), normalize_seq s)) df,
              length i > 0]"

text \<open>
  \<^verbatim>\<open>load_single_index_table\<close>. Where duplicated sequences are listed no sequence is missing,
  and \<^verbatim>\<open>astype(str)\<close> of a text is the text.
\<close>

definition load_single_index_table ::
  "column_kind \<Rightarrow> (string option \<times> string option) list \<Rightarrow> load_error + (string \<times> string) list"
where
  "load_single_index_table k df =
     (let out = single_rows k df;
          bad_ids = pd_unique [i. (i, s) \<leftarrow> out, s = None]
      in if list_ex (\<lambda>(i, s). s = None) out then
           Inl (MissingSequence (take 20 bad_ids) (length bad_ids > 20))
         else
           (let ids = map fst out;
                dup_ids = pd_unique (filter (duplicated_all ids) ids)
            in if list_ex (duplicated_all ids) ids then
                 Inl (DuplicateId (take 20 dup_ids) (length dup_ids > 20))
               else
                 (let seqs = map snd out;
                      dup_seqs = pd_unique [t. Some t \<leftarrow> filter (duplicated_all seqs) seqs]
                  in if list_ex (duplicated_all seqs) seqs then
                       Inl (DuplicateSequence (take 20 dup_seqs) (length dup_seqs > 20))
                     else Inr [(i, t). (i, Some t) \<leftarrow> out])))"

definition paired_rows ::
  "column_kind \<Rightarrow> (string option \<times> string option \<times> string option) list
     \<Rightarrow> (string \<times> string option \<times> string option) list"
where
  "paired_rows k df =
     [(p, a, b). (Some p, a, b) \<leftarrow>
                   map (\<lambda>(p, a, b). (map_option strip (astype_str k p), normalize_seq a, normalize_seq b)) df,
                 length p > 0]"

text \<open>
  \<^verbatim>\<open>load_paired_index_table\<close>. Its duplicate-ID failure prints \<^verbatim>\<open>dups[:10]\<close> and the mark
  when \<^verbatim>\<open>len(dups) > 10\<close>.
\<close>

definition load_paired_index_table ::
  "column_kind \<Rightarrow> (string option \<times> string option \<times> string option) list
     \<Rightarrow> load_error + (string \<times> (string \<times> string)) list"
where
  "load_paired_index_table k df =
     (let out = paired_rows k df;
          bad_ids = pd_unique [p. (p, a, b) \<leftarrow> out, a = None \<or> b = None]
      in if list_ex (\<lambda>(p, a, b). a = None \<or> b = None) out then
           Inl (MissingSequence (take 20 bad_ids) (length bad_ids > 20))
         else
           (let ids = map fst out;
                dups = pd_unique (filter (duplicated_all ids) ids)
            in if \<not> distinct ids then
                 Inl (DuplicateId (take 10 dups) (length dups > 10))
               else Inr [(p, (a, b)). (p, Some a, Some b) \<leftarrow> out]))"

section \<open>indexes.py: merging lookups\<close>

text \<open>
  \<^verbatim>\<open>merged[k] = v\<close> on a dictionary kept in insertion order: an existing key keeps its
  place and takes the value, a new key goes to the end.
\<close>

fun dict_set :: "('k \<times> 'v) list \<Rightarrow> 'k \<Rightarrow> 'v \<Rightarrow> ('k \<times> 'v) list" where
  "dict_set [] k v = [(k, v)]"
| "dict_set ((k', w) # d) k v = (if k' = k then (k, v) # d else (k', w) # dict_set d k v)"

text \<open>
  The \<^verbatim>\<open>ValueError\<close> of a merge: the ID, the value already merged and the new value
  (the message prints all three).
\<close>

datatype 'v merge_error = IdCollision string 'v 'v

text \<open>The inner loop \<^verbatim>\<open>for k, v in lk.items()\<close> and the outer loop \<^verbatim>\<open>for lk in lookups\<close>.\<close>

fun merge_items ::
  "(string \<times> 'v) list \<Rightarrow> (string \<times> 'v) list \<Rightarrow> 'v merge_error + (string \<times> 'v) list"
where
  "merge_items merged [] = Inr merged"
| "merge_items merged ((k, v) # items) =
     (case map_of merged k of
        Some w \<Rightarrow>
          if w \<noteq> v then Inl (IdCollision k w v)
          else merge_items (dict_set merged k v) items
      | None \<Rightarrow> merge_items (dict_set merged k v) items)"

fun merge_from ::
  "(string \<times> 'v) list \<Rightarrow> (string \<times> 'v) list list \<Rightarrow> 'v merge_error + (string \<times> 'v) list"
where
  "merge_from merged [] = Inr merged"
| "merge_from merged (lk # lookups) =
     (case merge_items merged lk of
        Inl e \<Rightarrow> Inl e
      | Inr merged' \<Rightarrow> merge_from merged' lookups)"

definition merge_single_lookups :: "single_lookup list \<Rightarrow> string merge_error + single_lookup" where
  "merge_single_lookups lookups = merge_from [] lookups"

definition merge_pair_lookups :: "pair_lookup list \<Rightarrow> (string \<times> string) merge_error + pair_lookup" where
  "merge_pair_lookups lookups = merge_from [] lookups"

text \<open>
  Every ID maps to one value throughout the sources: whenever two sources (or one source
  twice) hold an ID, they hold it with the same value.
\<close>

definition agree :: "(string \<times> 'v) list list \<Rightarrow> bool" where
  "agree lks = (\<forall>a\<in>set lks. \<forall>b\<in>set lks. \<forall>k v w. (k, v) \<in> set a \<and> (k, w) \<in> set b \<longrightarrow> v = w)"

section \<open>io_normalize.py: lane expansion\<close>

text \<open>
  The lane pattern \<^verbatim>\<open>^[1-8](?:[,\s]+[1-8])*$\<close>, matched against the stripped cell (so
  \<^verbatim>\<open>$\<close> is the end of the text). Digits and separators are disjoint classes, so
  the expression is the two-state automaton below: after a digit, and inside a run of
  separators.
\<close>

definition lane_digit :: "char \<Rightarrow> bool" where
  "lane_digit c = (c \<in> set ''12345678'')"

definition is_sep :: "char \<Rightarrow> bool" where
  "is_sep c = (c = CHR '','' \<or> is_space c)"

fun after_digit :: "string \<Rightarrow> bool" and in_sep :: "string \<Rightarrow> bool" where
  "after_digit [] = True"
| "after_digit (c # cs) = (is_sep c \<and> in_sep cs)"
| "in_sep [] = False"
| "in_sep (c # cs) = (if is_sep c then in_sep cs else lane_digit c \<and> after_digit cs)"

definition lane_pattern :: "string \<Rightarrow> bool" where
  "lane_pattern s = (case s of [] \<Rightarrow> False | c # cs \<Rightarrow> lane_digit c \<and> after_digit cs)"

text \<open>
  \<^verbatim>\<open>re.split(r"[,\s]+", s)\<close>: the pieces between maximal runs of separators; the
  first argument is the piece being read, reversed.
\<close>

function re_split :: "string \<Rightarrow> string \<Rightarrow> string list" where
  "re_split cur [] = [rev cur]"
| "re_split cur (c # cs) =
     (if is_sep c then rev cur # re_split [] (dropWhile is_sep cs) else re_split (c # cur) cs)"
  by pat_completeness auto
termination
  by (relation "measure (\<lambda>(cur, s). length s)") (auto simp: le_imp_less_Suc length_dropWhile_le)

text \<open>\<^verbatim>\<open>astype(int)\<close> on a text of decimal digits.\<close>

definition int_of_text :: "string \<Rightarrow> int" where
  "int_of_text t = foldl (\<lambda>a c. 10 * a + (int (of_char c) - 48)) 0 t"

text \<open>
  The three \<^verbatim>\<open>ValueError\<close>s of \<^verbatim>\<open>expand_lanes\<close>, with what their messages list:
  the row labels \<^verbatim>\<open>bad[:20]\<close> and whether \<^verbatim>\<open>" ..."\<close> follows, or the first ten bad
  cells. Row labels are positions (the default index of a table just read).
\<close>

datatype lane_error =
  LaneEmpty "nat list" bool
| LaneFormatInvalid "string list"
| LaneDuplicateInCell "nat list" bool

text \<open>
  \<^verbatim>\<open>expand_lanes\<close> on a table whose rows are a lane cell (the text \<^verbatim>\<open>astype(str)\<close>
  gives) and the other columns, which \<^verbatim>\<open>explode\<close> copies to every row it makes.
\<close>

definition expand_lanes :: "(string \<times> 'a) list \<Rightarrow> lane_error + (int \<times> 'a) list" where
  "expand_lanes df =
     (let s = map (\<lambda>r. strip (fst r)) df;
          bad = map fst (filter (\<lambda>(i, c). c = [] \<or> lower c = ''nan'') (zip [0..<length s] s))
      in if bad \<noteq> [] then Inl (LaneEmpty (take 20 bad) (length bad > 20))
         else
           (let bad_fmt = filter (\<lambda>r. \<not> lane_pattern (strip (fst r))) df
            in if bad_fmt \<noteq> [] then Inl (LaneFormatInvalid (map fst (take 10 bad_fmt)))
               else
                 (let lanes = map (re_split []) s;
                      out = concat (map (\<lambda>(xs, r). map (\<lambda>x. (int_of_text x, snd r)) xs) (zip lanes df));
                      bad_rows = map fst (filter (\<lambda>(i, xs). \<not> distinct xs) (zip [0..<length lanes] lanes))
                  in if bad_rows \<noteq> [] then
                       Inl (LaneDuplicateInCell (take 20 bad_rows) (length bad_rows > 20))
                     else Inr out)))"


text \<open>The cells the first check rejects: empty or "nan" in any letter case, once stripped.\<close>

definition blank_cell :: "string \<Rightarrow> bool" where
  "blank_cell c = (c = [] \<or> lower c = ''nan'')"

section \<open>validate.py\<close>

text \<open>
  \<^verbatim>\<open>df.groupby(lane_col)\<close>: the lanes in ascending order, each with its rows in table
  order. Every group is non-empty.
\<close>

definition groupby_lane :: "sample_row list \<Rightarrow> (int \<times> sample_row list) list" where
  "groupby_lane df = map (\<lambda>l. (l, filter (\<lambda>r. lane r = l) df)) (sort (remdups (map lane df)))"

text \<open>\<^verbatim>\<open>m = d if m is None else min(m, d)\<close>, the update of every minimum loop.\<close>

definition upd_min :: "nat option \<Rightarrow> nat \<Rightarrow> nat option" where
  "upd_min m d = Some (case m of None \<Rightarrow> d | Some m' \<Rightarrow> min m' d)"

text \<open>The index pairs of \<^verbatim>\<open>for i in range(n): for j in range(i + 1, n)\<close>, in loop order.\<close>

definition idx_pairs :: "nat \<Rightarrow> (nat \<times> nat) list" where
  "idx_pairs n = concat (map (\<lambda>i. map (\<lambda>j. (i, j)) [i + 1..<n]) [0..<n])"

definition trim_to_lane_min :: "string list \<Rightarrow> string list" where
  "trim_to_lane_min seqs =
     (if seqs = [] then [] else (let min_len = min_list (map length seqs) in map (take min_len) seqs))"

definition min_pairwise_hamming :: "string list \<Rightarrow> nat option" where
  "min_pairwise_hamming seqs =
     (let uniq = sort (remdups seqs)
      in if length uniq < 2 then None
         else fold (\<lambda>(i, j) m. case hamming (Some (uniq ! i)) (Some (uniq ! j)) of
                                 None \<Rightarrow> m
                               | Some d \<Rightarrow> upd_min m d)
                (idx_pairs (length uniq)) None)"

definition min_hamming_between_sets :: "string list \<Rightarrow> string list \<Rightarrow> nat option" where
  "min_hamming_between_sets a b =
     (if a = [] \<or> b = [] then None
      else fold (\<lambda>(x, y) m. case hamming (Some x) (Some y) of
                              None \<Rightarrow> m
                            | Some d \<Rightarrow> upd_min m d)
             (concat (map (\<lambda>x. map (\<lambda>y. (x, y)) b) a)) None)"

text \<open>
  \<^verbatim>\<open>_min_effective_pair_distance\<close>. Its one call passes two lists taken over the same
  row indices, so both have the length \<open>n\<close> that the indices range over.
\<close>

definition min_effective_pair_distance :: "string option list \<Rightarrow> string option list \<Rightarrow> nat option" where
  "min_effective_pair_distance i7_by_row i5_by_row =
     (let n = length i7_by_row
      in if n < 2 then None
         else fold (\<lambda>(i, j) m.
                      if i7_by_row ! i = None \<or> i7_by_row ! j = None
                         \<or> i5_by_row ! i = None \<or> i5_by_row ! j = None then m
                      else (case (hamming (i7_by_row ! i) (i7_by_row ! j),
                                  hamming (i5_by_row ! i) (i5_by_row ! j)) of
                              (Some d7, Some d5) \<Rightarrow> upd_min m (max d7 d5)
                            | _ \<Rightarrow> m))
                (idx_pairs n) None)"

text \<open>How an f-string prints an \<^verbatim>\<open>Optional[str]\<close>.\<close>

definition fmt_opt :: "string option \<Rightarrow> string" where
  "fmt_opt x = (case x of None \<Rightarrow> ''None'' | Some t \<Rightarrow> t)"

text \<open>
  The dual-index pair uniqueness check: one ERROR for each repeated trimmed pair, in the
  sorted order of the pair texts, naming the pair and the samples that carry it.
\<close>

definition dual_pair_problems ::
  "int \<Rightarrow> sample_row list \<Rightarrow> string list \<Rightarrow> string option list \<Rightarrow> nat list \<Rightarrow> problem list"
where
  "dual_pair_problems ln td i7_trim_by_row i5_trim_by_row dual_idxs =
     (let dual_pairs = map (\<lambda>row_i. i7_trim_by_row ! row_i @ ''+'' @ fmt_opt (i5_trim_by_row ! row_i)) dual_idxs;
          dup_keys = sort (remdups (filter (duplicated_all dual_pairs) dual_pairs))
      in map (\<lambda>p.
               (let rows = map fst (filter (\<lambda>(row_i, q). q = p) (zip dual_idxs dual_pairs));
                    sids = map (\<lambda>row_i. sample_id (td ! row_i)) rows
                in Problem ERROR ''INDEX_DUPLICATE_IN_LANE'' (p # sids) (Some ln) None))
           dup_keys)"

text \<open>
  The single-index exclusivity check: one ERROR for each single-index row whose trimmed
  i7 is also the trimmed i7 of another row.
\<close>

definition single_i7_problems ::
  "int \<Rightarrow> sample_row list \<Rightarrow> string list \<Rightarrow> nat list \<Rightarrow> problem list"
where
  "single_i7_problems ln td i7_trim_by_row single_idxs =
     concat (map (\<lambda>row_i.
               (let seq = i7_trim_by_row ! row_i;
                    rows = map fst (filter (\<lambda>(j, q). q = seq)
                                      (zip [0..<length i7_trim_by_row] i7_trim_by_row));
                    sids = map (\<lambda>j. sample_id (td ! j)) rows
                in if length rows > 1 then
                     [Problem ERROR ''SINGLE_I7_DUPLICATE_IN_LANE'' (seq # sids) (Some ln) None]
                   else []))
             single_idxs)"

text \<open>The three mismatch decisions: the WARN problems of the lane and its tolerance.\<close>

definition mixed_lane_policy :: "int \<Rightarrow> nat option \<Rightarrow> problem list \<times> int" where
  "mixed_lane_policy ln i7_min_focus =
     (case i7_min_focus of
        None \<Rightarrow> ([], DEFAULT_BARCODE_MISMATCHES)
      | Some d \<Rightarrow>
          if d = HAMMING_WARN_TIGHTEN then
            ([Problem WARN ''MIXED_LANE_I7_TOO_SIMILAR_HAMMING_1'' [] (Some ln) None], 0)
          else if d = HAMMING_WARN then
            ([Problem WARN ''MIXED_LANE_I7_SIMILAR_HAMMING_2'' [] (Some ln) None], 0)
          else if d < HAMMING_OK_MIN then
            ([Problem WARN ''MIXED_LANE_I7_TOO_SIMILAR'' [] (Some ln) None], 0)
          else ([], DEFAULT_BARCODE_MISMATCHES))"

definition dual_lane_policy :: "int \<Rightarrow> nat option \<Rightarrow> problem list \<times> int" where
  "dual_lane_policy ln d_eff_min =
     (case d_eff_min of
        None \<Rightarrow> ([], DEFAULT_BARCODE_MISMATCHES)
      | Some d \<Rightarrow>
          if d = HAMMING_WARN_TIGHTEN then
            ([Problem WARN ''DUAL_LANE_PAIR_TOO_SIMILAR_HAMMING_1'' [] (Some ln) None], 0)
          else if d = HAMMING_WARN then
            ([Problem WARN ''DUAL_LANE_PAIR_SIMILAR_HAMMING_2'' [] (Some ln) None], 0)
          else ([], DEFAULT_BARCODE_MISMATCHES))"

definition single_lane_policy :: "int \<Rightarrow> nat option \<Rightarrow> problem list \<times> int" where
  "single_lane_policy ln i7_min =
     (case i7_min of
        None \<Rightarrow> ([], DEFAULT_BARCODE_MISMATCHES)
      | Some d \<Rightarrow>
          if d = HAMMING_WARN_TIGHTEN then
            ([Problem WARN ''SINGLE_LANE_I7_TOO_SIMILAR_HAMMING_1'' [] (Some ln) None], 0)
          else if d = HAMMING_WARN then
            ([Problem WARN ''SINGLE_LANE_I7_SIMILAR_HAMMING_2'' [] (Some ln) None], 0)
          else ([], DEFAULT_BARCODE_MISMATCHES))"

text \<open>
  The body of the loop over the lanes: the problems appended for the lane and the value
  \<^verbatim>\<open>lane_mm[lane]\<close> ends with. Past the i7 check every i7 is present, so the list of
  the present values is the i7 column.
\<close>

definition validate_lane :: "int \<Rightarrow> sample_row list \<Rightarrow> problem list \<times> int" where
  "validate_lane ln td =
     (let i7_list = map (\<lambda>r. normalize_seq (i7 r)) td;
          i5_list = map (\<lambda>r. normalize_seq (i5 r)) td
      in if list_ex (\<lambda>x. x = None) i7_list then
           (let bad = map (\<lambda>(r, x). sample_id r) (filter (\<lambda>(r, x). x = None) (zip td i7_list))
            in ([Problem ERROR ''I7_MISSING'' bad (Some ln) None], DEFAULT_BARCODE_MISMATCHES))
         else
           (let is_single = map (\<lambda>x. x = None) i5_list;
                single_idxs = map fst (filter (\<lambda>(i, s). s) (zip [0..<length is_single] is_single));
                dual_idxs = map fst (filter (\<lambda>(i, s). \<not> s) (zip [0..<length is_single] is_single));
                has_single = (length single_idxs > 0);
                has_dual = (length dual_idxs > 0);
                i7_vals = [t. Some t \<leftarrow> i7_list];
                min_len_i7 = min_list (map length i7_vals);
                i7_trim_by_row = map (take min_len_i7) i7_vals;
                i5_nonmissing = [t. Some t \<leftarrow> i5_list];
                min_len_i5 = (if i5_nonmissing \<noteq> [] then min_list (map length i5_nonmissing) else 0);
                i5_trim_by_row = map (map_option (take min_len_i5)) i5_list;
                p_dual = (if has_dual then dual_pair_problems ln td i7_trim_by_row i5_trim_by_row dual_idxs
                          else []);
                p_single = (if has_single then single_i7_problems ln td i7_trim_by_row single_idxs else []);
                (p_mm, mm) =
                  (if has_single \<and> has_dual then
                     mixed_lane_policy ln
                       (min_hamming_between_sets (map (\<lambda>i. i7_trim_by_row ! i) single_idxs)
                          (map (\<lambda>i. i7_trim_by_row ! i) dual_idxs))
                   else if has_dual \<and> \<not> has_single then
                     dual_lane_policy ln
                       (min_effective_pair_distance (map (\<lambda>i. Some (i7_trim_by_row ! i)) dual_idxs)
                          (map (\<lambda>i. i5_trim_by_row ! i) dual_idxs))
                   else if has_single \<and> \<not> has_dual then
                     single_lane_policy ln (min_pairwise_hamming (trim_to_lane_min i7_trim_by_row))
                   else ([], DEFAULT_BARCODE_MISMATCHES))
            in (p_dual @ p_single @ p_mm, mm)))"

text \<open>
  \<^verbatim>\<open>validate_indexes_per_lane\<close>: the loop over the lanes, threading the problem list and
  the dictionary \<^verbatim>\<open>lane_mm\<close>.
\<close>

definition validate_indexes_per_lane :: "sample_row list \<Rightarrow> problem list \<times> (int \<times> int) list" where
  "validate_indexes_per_lane df =
     foldl (\<lambda>(probs, lane_mm) (ln, td).
              (let (ps, mm) = validate_lane ln td in (probs @ ps, dict_set lane_mm ln mm)))
       ([], []) (groupby_lane df)"

text \<open>
  \<^verbatim>\<open>SAMPLE_ID_ALLOWED\<close> is \<^verbatim>\<open>^[A-Za-z0-9._-]+$\<close>, tried with \<^verbatim>\<open>pat.match\<close>: one or more
  allowed characters up to the end of the text, where \<^verbatim>\<open>$\<close> also matches just before a
  line feed that ends the text.
\<close>

definition sample_id_char :: "char \<Rightarrow> bool" where
  "sample_id_char c = (c \<in> set (upper_letters @ lower_letters @ ''0123456789._-''))"

definition sample_id_allowed :: "string \<Rightarrow> bool" where
  "sample_id_allowed x =
     (let body = (if x \<noteq> [] \<and> last x = CHR 0x0A then butlast x else x)
      in body \<noteq> [] \<and> list_all sample_id_char body)"

text \<open>
  \<^verbatim>\<open>validate_sample_ids\<close>, on rows whose sample and project IDs are text: the rows with
  an invalid sample ID in table order, then for every lane in ascending order the sample
  IDs that repeat in it (\<^verbatim>\<open>sorted(set(...))\<close>), then the sample IDs that occur with more
  than one project, in the sorted order of \<^verbatim>\<open>groupby\<close>, each with its sorted projects.
\<close>

definition validate_sample_ids :: "sample_row list \<Rightarrow> problem list" where
  "validate_sample_ids df =
     (let invalid = [Problem ERROR ''SAMPLE_ID_INVALID'' [] (Some (lane r)) (Some (sample_id r)).
                       r \<leftarrow> df, \<not> sample_id_allowed (sample_id r)];
          dup = concat (map (\<lambda>(ln, td).
                  (let sids = map sample_id td
                   in map (\<lambda>sid. Problem ERROR ''SAMPLE_ID_DUPLICATE_IN_LANE'' [sid] (Some ln) (Some sid))
                        (sort (remdups (filter (duplicated_all sids) sids)))))
                  (groupby_lane df));
          projects_of = (\<lambda>sid. remdups [project_id r. r \<leftarrow> df, sample_id r = sid]);
          bad_sids = [sid. sid \<leftarrow> sort (remdups (map sample_id df)), length (projects_of sid) > 1];
          collided = map (\<lambda>sid. Problem ERROR ''SAMPLE_ID_PROJECT_COLLISION'' (sid # sort (projects_of sid))
                                   None (Some sid)) bad_sids
      in invalid @ dup @ collided)"

text \<open>\<^verbatim>\<open>validate_all\<close>: the problems of both validators and the mismatch map.\<close>

definition validate_all :: "sample_row list \<Rightarrow> problem list \<times> (int \<times> int) list" where
  "validate_all df =
     (let probs = validate_sample_ids df;
          (p2, lane_mm) = validate_indexes_per_lane df
      in (probs @ p2, lane_mm))"

section \<open>context.py\<close>

text \<open>
  The state of a \<^verbatim>\<open>RunContext\<close> that \<^verbatim>\<open>run\<close> reads and writes, and the output file:
  \<open>written\<close> is the table \<^verbatim>\<open>write_output\<close> has put there, if any. \<^verbatim>\<open>write_output\<close> sorts the
  resolved table by lane and then project with a stable sort and writes it; it raises when
  there is no resolved table. Failures of the file system are not modelled.
\<close>

record run_context =
  dry_run :: bool
  df_normalized :: "sample_row list option"
  df_resolved :: "sample_row list option"
  lane_barcode_mismatches :: "(int \<times> int) list"
  problems :: "problem list"
  written :: "sample_row list option"

datatype run_error = NoResolvedTable

definition write_output :: "run_context \<Rightarrow> run_error + run_context" where
  "write_output ctx =
     (case df_resolved ctx of
        None \<Rightarrow> Inl NoResolvedTable
      | Some df \<Rightarrow> Inr (ctx\<lparr>written := Some (sort_key lane (sort_key project_id df))\<rparr>))"

text \<open>
  \<^verbatim>\<open>RunContext.run\<close> from its step 4 on. Steps 1 to 3 read the input and the index tables
  and raise on any failure; what they deliver, the normalized table and the three merged
  lookups, are arguments here, with the kinds of the two sequence columns. The result is
  the exit code and the context, or the exception raised.
\<close>

definition run ::
  "column_kind \<Rightarrow> column_kind \<Rightarrow> run_context \<Rightarrow> sample_row list \<Rightarrow> single_lookup \<Rightarrow> single_lookup
     \<Rightarrow> pair_lookup option \<Rightarrow> run_error + (int \<times> run_context)"
where
  "run k7 k5 ctx df_norm i7_lookup i5_lookup pair_lookup =
     (let ctx1 = ctx\<lparr>df_normalized := Some df_norm\<rparr>;
          (res_df, res_problems) = resolve_indexes k7 k5 i7_lookup i5_lookup pair_lookup df_norm;
          ctx2 = ctx1\<lparr>df_resolved := Some res_df, problems := problems ctx1 @ res_problems\<rparr>;
          (vs_problems, vs_lane_mm) = validate_all res_df;
          ctx3 = ctx2\<lparr>problems := problems ctx2 @ vs_problems, lane_barcode_mismatches := vs_lane_mm\<rparr>;
          has_errors = list_ex (\<lambda>p. level p = ERROR) (problems ctx3)
      in if has_errors then Inr (2, ctx3)
         else if \<not> dry_run ctx3 then
           (case write_output ctx3 of Inl e \<Rightarrow> Inl e | Inr ctx4 \<Rightarrow> Inr (0, ctx4))
         else Inr (0, ctx3))"

section \<open>Properties of the sequence normalizer\<close>

lemma letters_length: "length lower_letters = length upper_letters"
  by (simp add: lower_letters_def upper_letters_def)

lemma upper_not_lower: "list_all (\<lambda>c. c \<notin> set lower_letters) upper_letters"
  by code_simp

lemma letters_not_space:
  "list_all (\<lambda>c. \<not> is_space c) lower_letters" "list_all (\<lambda>c. \<not> is_space c) upper_letters"
  by code_simp+

lemma upper_char_other: "c \<notin> set lower_letters \<Longrightarrow> upper_char c = c"
  using map_of_zip_is_None[OF letters_length, of c] by (simp add: upper_char_def)

lemma upper_char_letter: "c \<in> set lower_letters \<Longrightarrow> upper_char c \<in> set upper_letters"
proof -
  assume "c \<in> set lower_letters"
  then obtain u where u: "map_of (zip lower_letters upper_letters) c = Some u"
    using map_of_zip_is_None[OF letters_length, of c] by auto
  then have "u \<in> set upper_letters" by (meson map_of_SomeD set_zip_rightD)
  with u show ?thesis by (simp add: upper_char_def)
qed

lemma upper_char_idem: "upper_char (upper_char c) = upper_char c"
proof (cases "c \<in> set lower_letters")
  case True
  then have "upper_char c \<notin> set lower_letters"
    using upper_char_letter upper_not_lower by (auto simp: list_all_iff)
  then show ?thesis by (rule upper_char_other)
next
  case False
  then show ?thesis by (simp add: upper_char_other)
qed

lemma upper_char_not_space: "is_space (upper_char c) \<longleftrightarrow> is_space c"
proof (cases "c \<in> set lower_letters")
  case True
  then show ?thesis
    using upper_char_letter[of c] letters_not_space by (auto simp: list_all_iff)
next
  case False
  then show ?thesis by (simp add: upper_char_other)
qed

lemma upper_char_blank: "upper_char c = CHR '' '' \<longleftrightarrow> c = CHR '' ''"
proof -
  have "is_space (CHR '' '')" by (simp add: is_space_def)
  then show ?thesis
    using upper_char_not_space[of c] upper_char_other[of c] letters_not_space
    by (auto simp: list_all_iff)
qed

lemma dropWhile_self: "xs \<noteq> [] \<Longrightarrow> \<not> P (hd xs) \<Longrightarrow> dropWhile P xs = xs"
  by (cases xs) auto

lemma strip_fixed:
  assumes "s \<noteq> []" "\<not> is_space (hd s)" "\<not> is_space (last s)"
  shows "strip s = s"
proof -
  have a: "dropWhile is_space s = s" using assms by (simp add: dropWhile_self)
  have "rev s \<noteq> []" "hd (rev s) = last s" using assms by (simp_all add: hd_rev)
  then have "dropWhile is_space (rev s) = rev s" using assms(3) by (simp add: dropWhile_self)
  with a show ?thesis by (simp add: strip_def)
qed

lemma strip_Nil [simp]: "strip [] = []"
  by (simp add: strip_def)

lemma strip_ends:
  assumes "strip s \<noteq> []"
  shows "\<not> is_space (hd (strip s)) \<and> \<not> is_space (last (strip s))"
proof -
  let ?d = "dropWhile is_space s"
  let ?e = "dropWhile is_space (rev ?d)"
  have e: "?e \<noteq> []" using assms by (simp add: strip_def del: dropWhile_eq_Nil_conv)
  then have he: "\<not> is_space (hd ?e)" by (rule hd_dropWhile)
  have d: "?d \<noteq> []"
  proof
    assume "?d = []"
    then have "?e = []" by (simp del: dropWhile_eq_Nil_conv)
    with e show False by (simp del: dropWhile_eq_Nil_conv)
  qed
  then have hd: "\<not> is_space (hd ?d)" by (rule hd_dropWhile)
  have l: "last (strip s) = hd ?e" using e by (simp add: strip_def last_rev)
  obtain ys where ys: "rev ?d = ys @ ?e"
    by (metis takeWhile_dropWhile_id)
  then have "?d = rev ?e @ rev ys" by (metis rev_append rev_rev_ident)
  then have "hd ?d = hd (rev ?e)" using e by (metis hd_append2 rev_is_Nil_conv)
  with hd l he show ?thesis by (simp add: strip_def)
qed

lemma strip_pad:
  assumes "list_all is_space a" "list_all is_space b"
    and "t \<noteq> []" "\<not> is_space (hd t)" "\<not> is_space (last t)"
  shows "strip (a @ t @ b) = t"
proof -
  have 1: "dropWhile is_space (a @ t @ b) = t @ b"
    using assms by (cases t) (auto simp: dropWhile_append3 list_all_iff dropWhile_append)
  have "dropWhile is_space (rev b @ rev t) = rev t"
  proof -
    have "rev t \<noteq> []" "hd (rev t) = last t" using assms by (simp_all add: hd_rev)
    then have "dropWhile is_space (rev t) = rev t" using assms(5) by (simp add: dropWhile_self)
    moreover have "\<forall>x\<in>set (rev b). is_space x" using assms by (simp add: list_all_iff)
    ultimately show ?thesis by (simp add: dropWhile_append)
  qed
  with 1 show ?thesis by (simp add: strip_def)
qed

lemma strip_all_space:
  assumes "list_all is_space a"
  shows "strip a = []"
  using assms by (auto simp: strip_def list_all_iff dest: set_dropWhileD)

lemma normalize_seq_Some_iff:
  "normalize_seq (Some t) = Some v \<longleftrightarrow>
     v = filter (\<lambda>c. c \<noteq> CHR '' '') (upper (strip t)) \<and> v \<notin> set missing_tokens"
  by (auto simp: normalize_seq_def is_missing_def Let_def)

lemma normalize_seq_fixed:
  assumes "normalize_seq v = Some r"
  shows "normalize_seq (Some r) = Some r"
proof -
  from assms obtain t where v: "v = Some t"
    by (cases v) (auto simp: normalize_seq_def is_missing_def)
  let ?u = "upper (strip t)"
  from assms v have r: "r = filter (\<lambda>c. c \<noteq> CHR '' '') ?u" and nt: "r \<notin> set missing_tokens"
    by (auto simp: normalize_seq_Some_iff)
  from nt have rne: "r \<noteq> []" by (auto simp: missing_tokens_def)
  then have sne: "strip t \<noteq> []" using r by (auto simp: upper_def)
  from strip_ends[OF sne] have ends: "\<not> is_space (hd (strip t))" "\<not> is_space (last (strip t))"
    by simp_all
  have une: "?u \<noteq> []" using sne by (simp add: upper_def)
  have hu: "\<not> is_space (hd ?u)" using ends sne by (simp add: upper_def hd_map upper_char_not_space)
  have lu: "\<not> is_space (last ?u)" using ends sne by (simp add: upper_def last_map upper_char_not_space)
  have blank: "is_space (CHR '' '')" by (simp add: is_space_def)
  have nosp: "\<forall>c\<in>set r. \<not> is_space c \<or> c \<noteq> CHR '' ''" using r by auto
  have hr: "hd r = hd ?u"
  proof -
    from une obtain x xs where "?u = x # xs" by (cases ?u) auto
    moreover then have "x \<noteq> CHR '' ''" using hu blank by auto
    ultimately show ?thesis using r by simp
  qed
  have lr: "last r = last ?u"
  proof -
    from une obtain xs x where "?u = xs @ [x]" by (metis rev_exhaust)
    moreover then have "x \<noteq> CHR '' ''" using lu blank by auto
    ultimately show ?thesis using r by simp
  qed
  have sr: "strip r = r" using rne hr lr hu lu by (simp add: strip_fixed)
  have ur: "upper r = r" using r by (simp add: upper_def filter_map o_def upper_char_blank upper_char_idem)
  have fr: "filter (\<lambda>c. c \<noteq> CHR '' '') r = r" using r by simp
  show ?thesis using sr ur fr nt by (simp add: normalize_seq_Some_iff)
qed

lemma token_strip:
  assumes "upper t \<in> {''NAN'', ''NA'', ''NONE''}"
  shows "t \<noteq> [] \<and> \<not> is_space (hd t) \<and> \<not> is_space (last t)"
proof -
  from assms have ne: "t \<noteq> []" by (auto simp: upper_def)
  have "\<not> is_space (hd (upper t)) \<and> \<not> is_space (last (upper t))"
    using assms by (auto simp: is_space_def)
  then show ?thesis using ne by (simp add: upper_def hd_map last_map upper_char_not_space)
qed

lemma normalize_seq_missing_variant:
  assumes "list_all is_space a" "list_all is_space b" "upper t \<in> set missing_tokens"
  shows "normalize_seq (Some (a @ t @ b)) = None"
proof (cases "t = []")
  case True
  then have "strip (a @ t @ b) = []" using assms by (simp add: strip_all_space)
  then show ?thesis by (simp add: normalize_seq_def is_missing_def upper_def missing_tokens_def)
next
  case False
  then have "upper t \<in> {''NAN'', ''NA'', ''NONE''}"
    using assms(3) by (auto simp: missing_tokens_def upper_def)
  from token_strip[OF this] have "strip (a @ t @ b) = t" using assms by (simp add: strip_pad)
  moreover have "CHR '' '' \<notin> set (upper t)" using assms(3) by (auto simp: missing_tokens_def)
  then have "filter (\<lambda>c. c \<noteq> CHR '' '') (upper t) = upper t" by (auto simp: filter_id_conv)
  ultimately show ?thesis using assms(3) by (simp add: normalize_seq_def is_missing_def)
qed

text \<open>
  C8. The sequence normalizer is idempotent on non-absent results: whenever normalizing
  \<open>v\<close> gives a sequence \<open>r\<close>, normalizing \<open>r\<close> gives \<open>r\<close> again. The null input is absent,
  and so is every missing-token variant: the empty text or one of "nan", "na", "none" written
  in any letter case (\<open>upper t\<close> is one of the tokens) and padded on both sides with any
  whitespace.
\<close>

theorem normalize_seq_idempotent:
  "(normalize_seq v = Some r \<longrightarrow> normalize_seq (Some r) = Some r)
   \<and> normalize_seq None = None
   \<and> (list_all is_space a \<and> list_all is_space b \<and> upper t \<in> set missing_tokens
        \<longrightarrow> normalize_seq (Some (a @ t @ b)) = None)"
  using normalize_seq_fixed normalize_seq_missing_variant
  by (auto simp: normalize_seq_def is_missing_def)

theorem normalize_seq_idempotent_witness:
  "normalize_seq (Some '' ac gt '') = Some ''ACGT''
   \<and> normalize_seq (Some ''ACGT'') = Some ''ACGT''
   \<and> normalize_seq None = None
   \<and> list_all is_space '' '' \<and> list_all is_space [CHR 0x09, CHR '' '']
   \<and> upper ''nAn'' \<in> set missing_tokens
   \<and> normalize_seq (Some ('' '' @ ''nAn'' @ [CHR 0x09, CHR '' ''])) = None"
  using normalize_seq_idempotent [of "Some '' ac gt ''" "''ACGT''" "'' ''" "[CHR 0x09, CHR '' '']" "''nAn''"]
  by (simp add: normalize_seq_def is_missing_def strip_def upper_def upper_char_def
      lower_letters_def upper_letters_def is_space_def missing_tokens_def)

section \<open>Properties of the index resolver\<close>

lemma normalize_seq_idem [simp]: "normalize_seq (normalize_seq x) = normalize_seq x"
proof (cases "normalize_seq x")
  case None
  then show ?thesis by (simp add: normalize_seq_def is_missing_def)
next
  case (Some r)
  then show ?thesis by (simp add: normalize_seq_fixed)
qed

lemma normalize_seq_nonempty: "normalize_seq x \<noteq> Some []"
  by (cases x) (auto simp: normalize_seq_def is_missing_def Let_def missing_tokens_def)

lemma truthy_normalize_seq [simp]:
  "truthy (read_cell k (normalize_seq x)) \<longleftrightarrow> normalize_seq x \<noteq> None \<or> k = StringColumn"
  using normalize_seq_nonempty[of x]
  by (cases "normalize_seq x"; cases k) (auto simp: truthy_def read_cell_def)

lemma strip_idem [simp]: "strip (strip s) = strip s"
proof (cases "strip s = []")
  case True
  then show ?thesis by simp
next
  case False
  then show ?thesis using strip_ends[of s] by (simp add: strip_fixed)
qed

lemma blank_id_strip [simp]: "blank_id (strip x) = blank_id x"
  by (simp add: blank_id_def)

lemma final_pass_normalize_columns [simp]: "final_pass (normalize_columns r) = normalize_columns r"
  by (simp add: final_pass_def normalize_columns_def)

lemma nc_fields [simp]:
  "i7 (normalize_columns r) = normalize_seq (i7 r)"
  "i5 (normalize_columns r) = normalize_seq (i5 r)"
  "i7_id (normalize_columns r) = strip (i7_id r)"
  "i5_id (normalize_columns r) = strip (i5_id r)"
  "lane (normalize_columns r) = lane r"
  "sample_id (normalize_columns r) = sample_id r"
  "project_id (normalize_columns r) = project_id r"
  by (simp_all add: normalize_columns_def)

lemma resolve_row_skipped:
  assumes "truthy (read_cell k7 (i7 r)) \<and> truthy (read_cell k5 (i5 r))"
  shows "resolve_row k7 k5 l7 l5 pl r = (r, [])"
  unfolding resolve_row_def Let_def by (simp only: assms simp_thms if_True)

lemma resolve_row_paired:
  assumes "\<not> (truthy (read_cell k7 (i7 r)) \<and> truthy (read_cell k5 (i5 r)))"
    and "blank_id (i7_id r) \<noteq> []" and "blank_id (i5_id r) = blank_id (i7_id r)"
  shows "resolve_row k7 k5 l7 l5 pl r =
     (case pl of
        None \<Rightarrow> (r, [Problem ERROR ''PAIR_TABLE_NOT_PROVIDED'' [] (Some (lane r)) (Some (strip (sample_id r)))])
      | Some t \<Rightarrow>
          if t = [] then
            (r, [Problem ERROR ''PAIR_TABLE_NOT_PROVIDED'' [] (Some (lane r)) (Some (strip (sample_id r)))])
          else
            (case map_of t (blank_id (i7_id r)) of
               None \<Rightarrow> (r, [Problem ERROR ''PAIR_ID_NOT_FOUND'' [blank_id (i7_id r)] (Some (lane r))
                            (Some (strip (sample_id r)))])
             | Some (s7, s5) \<Rightarrow>
                 (r\<lparr>i7 := normalize_seq (Some s7), i5 := normalize_seq (Some s5)\<rparr>, [])))"
proof -
  have c: "\<not> (truthy (read_cell k7 (i7 r)) \<and> truthy (read_cell k5 (i5 r)))" by (rule assms(1))
  show ?thesis
    unfolding resolve_row_def Let_def
    by (simp only: c assms(2,3) if_False if_True simp_thms)
qed

lemma resolve_row_independent:
  assumes "\<not> (truthy (read_cell k7 (i7 r)) \<and> truthy (read_cell k5 (i5 r)))"
    and "\<not> (blank_id (i7_id r) \<noteq> [] \<and> blank_id (i5_id r) \<noteq> [] \<and> blank_id (i7_id r) = blank_id (i5_id r))"
  shows "resolve_row k7 k5 l7 l5 pl r =
     (r\<lparr>i7 := fst (resolve_i7 k7 l7 (Some (lane r)) (Some (strip (sample_id r))) (i7 r) (blank_id (i7_id r))),
        i5 := fst (resolve_i5 k5 l5 (Some (lane r)) (Some (strip (sample_id r))) (i5 r) (blank_id (i5_id r)))\<rparr>,
      snd (resolve_i7 k7 l7 (Some (lane r)) (Some (strip (sample_id r))) (i7 r) (blank_id (i7_id r)))
      @ snd (resolve_i5 k5 l5 (Some (lane r)) (Some (strip (sample_id r))) (i5 r) (blank_id (i5_id r)))
      @ final_requirement k7 (Some (lane r)) (Some (strip (sample_id r)))
          (fst (resolve_i7 k7 l7 (Some (lane r)) (Some (strip (sample_id r))) (i7 r) (blank_id (i7_id r)))))"
proof -
  have c: "\<not> (truthy (read_cell k7 (i7 r)) \<and> truthy (read_cell k5 (i5 r)))" by (rule assms(1))
  show ?thesis
    unfolding resolve_row_def Let_def split_def
    by (simp only: c assms(2) if_False)
qed

lemma normalize_seq_None [simp]: "normalize_seq None = None"
  by (simp add: normalize_seq_def is_missing_def)

lemma resolve_i7_normal:
  "normalize_seq (fst (resolve_i7 k7 l7 ln sid (normalize_seq x) k)) = fst (resolve_i7 k7 l7 ln sid (normalize_seq x) k)"
  by (simp add: resolve_i7_def split: option.split)

lemma resolve_i5_normal:
  "normalize_seq (fst (resolve_i5 k5 l5 ln sid (normalize_seq x) k)) = fst (resolve_i5 k5 l5 ln sid (normalize_seq x) k)"
  by (simp add: resolve_i5_def split: option.split)

lemma resolve_i7_ok:
  "fst (resolve_i7 ObjectColumn l7 ln sid (normalize_seq x) k) \<noteq> None
     \<Longrightarrow> snd (resolve_i7 ObjectColumn l7 ln sid (normalize_seq x) k) = []"
  by (cases "map_of l7 k") (auto simp: resolve_i7_def split: if_splits)

lemma resolve_i7_codes:
  "Problem ERROR ''I7_SEQUENCE_NOT_RESOLVED'' [] ln sid \<notin> set (snd (resolve_i7 k7 l7 ln sid s k))"
  by (simp add: resolve_i7_def split: option.split)

lemma resolve_i5_codes:
  "Problem ERROR ''I7_SEQUENCE_NOT_RESOLVED'' [] ln sid \<notin> set (snd (resolve_i5 k5 l5 ln sid s k))"
  by (simp add: resolve_i5_def split: option.split)

lemma resolve_i5_no_id: "snd (resolve_i5 k5 l5 ln sid s []) = []"
  by (simp add: resolve_i5_def)

lemma resolve_one_skipped:
  assumes "normalize_seq (i7 r) \<noteq> None \<or> k7 = StringColumn"
    and "normalize_seq (i5 r) \<noteq> None \<or> k5 = StringColumn"
  shows "resolve_one k7 k5 l7 l5 pl r = (normalize_columns r, [])"
proof -
  have "truthy (read_cell k7 (i7 (normalize_columns r))) \<and> truthy (read_cell k5 (i5 (normalize_columns r)))"
    using assms by simp
  from resolve_row_skipped[OF this] show ?thesis by (simp add: resolve_one_def)
qed

lemma resolve_one_paired:
  assumes "(normalize_seq (i7 r) = None \<and> k7 = ObjectColumn) \<or> (normalize_seq (i5 r) = None \<and> k5 = ObjectColumn)"
    and "blank_id (i7_id r) \<noteq> []" and "blank_id (i5_id r) = blank_id (i7_id r)"
  shows "resolve_one k7 k5 l7 l5 pl r =
     (case pl of
        None \<Rightarrow> (normalize_columns r,
                  [Problem ERROR ''PAIR_TABLE_NOT_PROVIDED'' [] (Some (lane r)) (Some (strip (sample_id r)))])
      | Some t \<Rightarrow>
          if t = [] then
            (normalize_columns r,
             [Problem ERROR ''PAIR_TABLE_NOT_PROVIDED'' [] (Some (lane r)) (Some (strip (sample_id r)))])
          else
            (case map_of t (blank_id (i7_id r)) of
               None \<Rightarrow> (normalize_columns r,
                         [Problem ERROR ''PAIR_ID_NOT_FOUND'' [blank_id (i7_id r)] (Some (lane r))
                            (Some (strip (sample_id r)))])
             | Some (s7, s5) \<Rightarrow>
                 ((normalize_columns r)\<lparr>i7 := normalize_seq (Some s7), i5 := normalize_seq (Some s5)\<rparr>, [])))"
proof -
  have c: "\<not> (truthy (read_cell k7 (i7 (normalize_columns r))) \<and> truthy (read_cell k5 (i5 (normalize_columns r))))"
    using assms(1) by auto
  have "resolve_row k7 k5 l7 l5 pl (normalize_columns r) =
     (case pl of
        None \<Rightarrow> (normalize_columns r,
                  [Problem ERROR ''PAIR_TABLE_NOT_PROVIDED'' [] (Some (lane r)) (Some (strip (sample_id r)))])
      | Some t \<Rightarrow>
          if t = [] then
            (normalize_columns r,
             [Problem ERROR ''PAIR_TABLE_NOT_PROVIDED'' [] (Some (lane r)) (Some (strip (sample_id r)))])
          else
            (case map_of t (blank_id (i7_id r)) of
               None \<Rightarrow> (normalize_columns r,
                         [Problem ERROR ''PAIR_ID_NOT_FOUND'' [blank_id (i7_id r)] (Some (lane r))
                            (Some (strip (sample_id r)))])
             | Some (s7, s5) \<Rightarrow>
                 ((normalize_columns r)\<lparr>i7 := normalize_seq (Some s7), i5 := normalize_seq (Some s5)\<rparr>, [])))"
    using resolve_row_paired[OF c, of l7 l5 pl] assms(2,3)
    by (simp cong: option.case_cong if_cong)
  then show ?thesis
    by (simp add: resolve_one_def final_pass_def split: option.split prod.split)
qed

lemma resolve_one_independent:
  assumes "(normalize_seq (i7 r) = None \<and> k7 = ObjectColumn) \<or> (normalize_seq (i5 r) = None \<and> k5 = ObjectColumn)"
    and "\<not> (blank_id (i7_id r) \<noteq> [] \<and> blank_id (i5_id r) \<noteq> [] \<and> blank_id (i7_id r) = blank_id (i5_id r))"
  shows "resolve_one k7 k5 l7 l5 pl r =
     ((normalize_columns r)\<lparr>i7 := fst (resolve_i7 k7 l7 (Some (lane r)) (Some (strip (sample_id r))) (normalize_seq (i7 r)) (blank_id (i7_id r))),
        i5 := fst (resolve_i5 k5 l5 (Some (lane r)) (Some (strip (sample_id r))) (normalize_seq (i5 r)) (blank_id (i5_id r)))\<rparr>,
      snd (resolve_i7 k7 l7 (Some (lane r)) (Some (strip (sample_id r))) (normalize_seq (i7 r)) (blank_id (i7_id r)))
      @ snd (resolve_i5 k5 l5 (Some (lane r)) (Some (strip (sample_id r))) (normalize_seq (i5 r)) (blank_id (i5_id r)))
      @ final_requirement k7 (Some (lane r)) (Some (strip (sample_id r)))
          (fst (resolve_i7 k7 l7 (Some (lane r)) (Some (strip (sample_id r))) (normalize_seq (i7 r)) (blank_id (i7_id r)))))"
proof -
  have c: "\<not> (truthy (read_cell k7 (i7 (normalize_columns r))) \<and> truthy (read_cell k5 (i5 (normalize_columns r))))"
    using assms(1) by auto
  have p: "\<not> (blank_id (i7_id (normalize_columns r)) \<noteq> [] \<and> blank_id (i5_id (normalize_columns r)) \<noteq> []
      \<and> blank_id (i7_id (normalize_columns r)) = blank_id (i5_id (normalize_columns r)))"
    using assms(2) by simp
  show ?thesis
    using resolve_row_independent[OF c p, of l7 l5 pl]
    by (simp add: resolve_one_def final_pass_def resolve_i7_normal resolve_i5_normal)
qed

lemma resolve_indexes_rows:
  "resolve_indexes k7 k5 l7 l5 pl df =
     (map (fst \<circ> resolve_one k7 k5 l7 l5 pl) df, concat (map (snd \<circ> resolve_one k7 k5 l7 l5 pl) df))"
  by (simp add: resolve_indexes_def resolve_one_def Let_def comp_def split_def)

lemma resolve_indexes_at_row:
  "resolve_indexes k7 k5 l7 l5 pl (pre @ r # post) =
     (fst (resolve_indexes k7 k5 l7 l5 pl pre) @ fst (resolve_one k7 k5 l7 l5 pl r)
        # fst (resolve_indexes k7 k5 l7 l5 pl post),
      snd (resolve_indexes k7 k5 l7 l5 pl pre) @ snd (resolve_one k7 k5 l7 l5 pl r)
        @ snd (resolve_indexes k7 k5 l7 l5 pl post))"
  by (simp add: resolve_indexes_rows)

lemma resolve_one_present:
  assumes "normalize_seq (i7 r) \<noteq> None" "normalize_seq (i5 r) \<noteq> None"
  shows "resolve_one k7 k5 l7 l5 pl r = (normalize_columns r, [])"
  using assms by (simp add: resolve_one_skipped)

text \<open>
  C7. A row whose two sequences are both present after normalization comes out of the
  resolver with exactly its normalized sequences and stripped IDs, and with no problem,
  whatever the three lookups hold, whatever its IDs are and whatever the kinds of the two
  sequence columns; this holds for the row at any position of any table.
\<close>

theorem resolve_keeps_present_sequences:
  assumes "normalize_seq (i7 r) \<noteq> None" and "normalize_seq (i5 r) \<noteq> None"
  shows "resolve_one k7 k5 l7 l5 pl r = (normalize_columns r, [])
         \<and> i7 (normalize_columns r) = normalize_seq (i7 r)
         \<and> i5 (normalize_columns r) = normalize_seq (i5 r)
         \<and> resolve_indexes k7 k5 l7 l5 pl (pre @ r # post) =
             (fst (resolve_indexes k7 k5 l7 l5 pl pre) @ normalize_columns r
                # fst (resolve_indexes k7 k5 l7 l5 pl post),
              snd (resolve_indexes k7 k5 l7 l5 pl pre) @ snd (resolve_indexes k7 k5 l7 l5 pl post))"
  using resolve_one_present[OF assms] by (simp add: resolve_indexes_at_row normalize_columns_def)

theorem resolve_keeps_present_sequences_witness:
  "normalize_seq (Some ''acgt'') \<noteq> None \<and> normalize_seq (Some '' TTGG'') \<noteq> None
   \<and> resolve_one ObjectColumn StringColumn [(''bogus'', ''AAAA'')] [] None
        \<lparr>lane = 1, sample_id = ''S1'', project_id = ''P1'', i7_id = ''bogus'', i5_id = ''nope'',
         i7 = Some ''acgt'', i5 = Some '' TTGG''\<rparr>
      = (\<lparr>lane = 1, sample_id = ''S1'', project_id = ''P1'', i7_id = ''bogus'', i5_id = ''nope'',
         i7 = Some ''ACGT'', i5 = Some ''TTGG''\<rparr>, [])"
  using resolve_keeps_present_sequences [of
      "\<lparr>lane = 1, sample_id = ''S1'', project_id = ''P1'', i7_id = ''bogus'', i5_id = ''nope'',
         i7 = Some ''acgt'', i5 = Some '' TTGG''\<rparr>" ObjectColumn StringColumn
      "[(''bogus'', ''AAAA'')]" "[]" None "[]" "[]"]
  by code_simp

text \<open>
  C2, as the code has it. Take a row with one of its two sequences missing after
  normalization and read back from its column as \<^verbatim>\<open>None\<close> (an object column), and whose two
  IDs are present and equal (after stripping). With no PairLookup, or with one that has no
  entry at all, the resolver records one ERROR \<open>PAIR_TABLE_NOT_PROVIDED\<close>; with a PairLookup
  that has entries but not this ID, one ERROR \<open>PAIR_ID_NOT_FOUND\<close>; and when the ID is a
  key, both sequences become the normalized pair entry and no problem is recorded. In all
  three cases the result does not depend on the i7 and i5 lookups.
\<close>

theorem resolve_paired_kit:
  assumes "(normalize_seq (i7 r) = None \<and> k7 = ObjectColumn) \<or> (normalize_seq (i5 r) = None \<and> k5 = ObjectColumn)"
    and "blank_id (i7_id r) \<noteq> []" and "blank_id (i5_id r) = blank_id (i7_id r)"
  shows "(pl = None \<or> pl = Some [] \<longrightarrow>
            resolve_one k7 k5 l7 l5 pl r =
              (normalize_columns r,
               [Problem ERROR ''PAIR_TABLE_NOT_PROVIDED'' [] (Some (lane r)) (Some (strip (sample_id r)))]))
       \<and> (pl = Some t \<and> t \<noteq> [] \<and> map_of t (blank_id (i7_id r)) = None \<longrightarrow>
            resolve_one k7 k5 l7 l5 pl r =
              (normalize_columns r,
               [Problem ERROR ''PAIR_ID_NOT_FOUND'' [blank_id (i7_id r)] (Some (lane r))
                  (Some (strip (sample_id r)))]))
       \<and> (pl = Some t \<and> map_of t (blank_id (i7_id r)) = Some (s7, s5) \<longrightarrow>
            resolve_one k7 k5 l7 l5 pl r =
              ((normalize_columns r)\<lparr>i7 := normalize_seq (Some s7), i5 := normalize_seq (Some s5)\<rparr>, []))"
  using resolve_one_paired[OF assms, of l7 l5 pl] by auto

definition kit_row :: "string \<Rightarrow> sample_row" where
  "kit_row k = \<lparr>lane = 3, sample_id = ''S1'', project_id = ''P1'', i7_id = k, i5_id = k,
                i7 = None, i5 = None\<rparr>"

definition kit_table :: pair_lookup where
  "kit_table = [(''SI-GA-A1'', (''ACGTACGT'', ''TTGGCCAA''))]"

theorem resolve_paired_kit_witness:
  "resolve_one ObjectColumn ObjectColumn [] [] (Some kit_table) (kit_row ''SI-GA-A1'')
     = ((kit_row ''SI-GA-A1'')\<lparr>i7 := Some ''ACGTACGT'', i5 := Some ''TTGGCCAA''\<rparr>, [])
   \<and> resolve_one ObjectColumn ObjectColumn [] [] (Some kit_table) (kit_row ''SI-GA-B2'')
     = (kit_row ''SI-GA-B2'', [Problem ERROR ''PAIR_ID_NOT_FOUND'' [''SI-GA-B2''] (Some 3) (Some ''S1'')])
   \<and> resolve_one ObjectColumn ObjectColumn [] [] None (kit_row ''SI-GA-A1'')
     = (kit_row ''SI-GA-A1'', [Problem ERROR ''PAIR_TABLE_NOT_PROVIDED'' [] (Some 3) (Some ''S1'')])"
  using resolve_paired_kit [of "kit_row ''SI-GA-A1''" ObjectColumn ObjectColumn "Some kit_table" "[]" "[]"
      kit_table "''ACGTACGT''" "''TTGGCCAA''"]
    resolve_paired_kit [of "kit_row ''SI-GA-B2''" ObjectColumn ObjectColumn "Some kit_table" "[]" "[]" kit_table]
    resolve_paired_kit [of "kit_row ''SI-GA-A1''" ObjectColumn ObjectColumn None "[]" "[]"]
  by code_simp

text \<open>
  The claim as written fails when a PairLookup was supplied but is empty: the shared ID is
  not one of its keys, yet the problem recorded is \<open>PAIR_TABLE_NOT_PROVIDED\<close>.
\<close>

theorem resolve_paired_kit_counterexample:
  "map_of ([] :: pair_lookup) ''SI-GA-A1'' = None
   \<and> snd (resolve_one ObjectColumn ObjectColumn [] [] (Some []) (kit_row ''SI-GA-A1''))
       = [Problem ERROR ''PAIR_TABLE_NOT_PROVIDED'' [] (Some 3) (Some ''S1'')]
   \<and> snd (resolve_one ObjectColumn ObjectColumn [] [] (Some []) (kit_row ''SI-GA-A1''))
       \<noteq> [Problem ERROR ''PAIR_ID_NOT_FOUND'' [''SI-GA-A1''] (Some 3) (Some ''S1'')]"
  by code_simp

text \<open>
  C3, as the code has it, where the i7 column hands a missing cell back as \<^verbatim>\<open>None\<close> (an
  object column). The final requirement is part of independent resolution. For a row that
  does not take the paired-kit path (its sequences are both present, or its IDs are not
  both present and equal), the ERROR \<open>I7_SEQUENCE_NOT_RESOLVED\<close> is recorded exactly when
  the row's i7 is absent after resolution, and a row whose i7 is present and whose i5 ID is
  absent records no problem at all, whether or not its i5 is absent. A row with a missing
  i7 on the paired-kit path whose pair lookup fails comes out as it went in, its i7 still
  absent, and records exactly one problem, its pair error: \<open>PAIR_TABLE_NOT_PROVIDED\<close> when
  there is no PairLookup or an empty one, \<open>PAIR_ID_NOT_FOUND\<close> otherwise.
\<close>

theorem resolve_final_requirement:
  "((normalize_seq (i7 r) \<noteq> None \<and> normalize_seq (i5 r) \<noteq> None)
      \<or> \<not> (blank_id (i7_id r) \<noteq> [] \<and> blank_id (i5_id r) = blank_id (i7_id r))
    \<longrightarrow> (i7 (fst (resolve_one ObjectColumn k5 l7 l5 pl r)) = None \<longleftrightarrow>
           Problem ERROR ''I7_SEQUENCE_NOT_RESOLVED'' [] (Some (lane r)) (Some (strip (sample_id r)))
             \<in> set (snd (resolve_one ObjectColumn k5 l7 l5 pl r)))
        \<and> (i7 (fst (resolve_one ObjectColumn k5 l7 l5 pl r)) \<noteq> None \<and> blank_id (i5_id r) = []
             \<longrightarrow> snd (resolve_one ObjectColumn k5 l7 l5 pl r) = []))
   \<and> (normalize_seq (i7 r) = None
      \<and> blank_id (i7_id r) \<noteq> [] \<and> blank_id (i5_id r) = blank_id (i7_id r)
      \<and> (pl = None \<or> pl = Some t \<and> map_of t (blank_id (i7_id r)) = None)
    \<longrightarrow> fst (resolve_one ObjectColumn k5 l7 l5 pl r) = normalize_columns r
        \<and> i7 (fst (resolve_one ObjectColumn k5 l7 l5 pl r)) = None
        \<and> snd (resolve_one ObjectColumn k5 l7 l5 pl r) =
            [if pl = None \<or> pl = Some [] then
               Problem ERROR ''PAIR_TABLE_NOT_PROVIDED'' [] (Some (lane r)) (Some (strip (sample_id r)))
             else
               Problem ERROR ''PAIR_ID_NOT_FOUND'' [blank_id (i7_id r)] (Some (lane r))
                 (Some (strip (sample_id r)))])"
proof -
  let ?both = "normalize_seq (i7 r) \<noteq> None \<and> normalize_seq (i5 r) \<noteq> None"
  let ?paired = "blank_id (i7_id r) \<noteq> [] \<and> blank_id (i5_id r) = blank_id (i7_id r)"
  let ?res = "resolve_one ObjectColumn k5 l7 l5 pl r"
  let ?p = "Problem ERROR ''I7_SEQUENCE_NOT_RESOLVED'' [] (Some (lane r)) (Some (strip (sample_id r)))"
  let ?skip = "normalize_seq (i7 r) \<noteq> None \<and> (normalize_seq (i5 r) \<noteq> None \<or> k5 = StringColumn)"
  have skipped: "(i7 (fst ?res) = None \<longleftrightarrow> ?p \<in> set (snd ?res))
      \<and> (i7 (fst ?res) \<noteq> None \<and> blank_id (i5_id r) = [] \<longrightarrow> snd ?res = [])" if ?skip
    using that by (simp add: resolve_one_skipped)
  have indep: "(i7 (fst ?res) = None \<longleftrightarrow> ?p \<in> set (snd ?res))
      \<and> (i7 (fst ?res) \<noteq> None \<and> blank_id (i5_id r) = [] \<longrightarrow> snd ?res = [])"
    if ns: "\<not> ?skip" and np: "\<not> ?paired"
  proof -
    let ?r7 = "resolve_i7 ObjectColumn l7 (Some (lane r)) (Some (strip (sample_id r))) (normalize_seq (i7 r)) (blank_id (i7_id r))"
    let ?r5 = "resolve_i5 k5 l5 (Some (lane r)) (Some (strip (sample_id r))) (normalize_seq (i5 r)) (blank_id (i5_id r))"
    from ns have nb: "(normalize_seq (i7 r) = None \<and> ObjectColumn = ObjectColumn)
        \<or> (normalize_seq (i5 r) = None \<and> k5 = ObjectColumn)"
      by (cases k5) auto
    from np have np': "\<not> (blank_id (i7_id r) \<noteq> [] \<and> blank_id (i5_id r) \<noteq> []
        \<and> blank_id (i7_id r) = blank_id (i5_id r))" by auto
    have f: "i7 (fst ?res) = fst ?r7"
      and s: "snd ?res = snd ?r7 @ snd ?r5
                @ final_requirement ObjectColumn (Some (lane r)) (Some (strip (sample_id r))) (fst ?r7)"
      using resolve_one_independent[OF nb np', of l7 l5 pl] by simp_all
    have t: "truthy (read_cell ObjectColumn (fst ?r7)) \<longleftrightarrow> fst ?r7 \<noteq> None"
      using truthy_normalize_seq[of ObjectColumn "fst ?r7"] by (simp add: resolve_i7_normal)
    have a: "i7 (fst ?res) = None \<longleftrightarrow> ?p \<in> set (snd ?res)"
      using resolve_i7_codes[of "Some (lane r)" "Some (strip (sample_id r))" ObjectColumn l7]
        resolve_i5_codes[of "Some (lane r)" "Some (strip (sample_id r))" k5 l5]
      by (simp add: f s t final_requirement_def)
    have b: "snd ?res = []" if "i7 (fst ?res) \<noteq> None" "blank_id (i5_id r) = []"
      using that resolve_i7_ok[of l7 "Some (lane r)" "Some (strip (sample_id r))" "i7 r" "blank_id (i7_id r)"]
      by (simp add: f s t final_requirement_def resolve_i5_no_id)
    from a b show ?thesis by blast
  qed
  have part1: "(i7 (fst ?res) = None \<longleftrightarrow> ?p \<in> set (snd ?res))
      \<and> (i7 (fst ?res) \<noteq> None \<and> blank_id (i5_id r) = [] \<longrightarrow> snd ?res = [])"
    if h: "?both \<or> \<not> ?paired"
  proof (cases ?skip)
    case True
    then show ?thesis by (rule skipped)
  next
    case False
    with h have "\<not> ?paired" by blast
    with False show ?thesis by (rule indep)
  qed
  have part2: "fst ?res = normalize_columns r \<and> i7 (fst ?res) = None
        \<and> snd ?res =
            [if pl = None \<or> pl = Some [] then
               Problem ERROR ''PAIR_TABLE_NOT_PROVIDED'' [] (Some (lane r)) (Some (strip (sample_id r)))
             else
               Problem ERROR ''PAIR_ID_NOT_FOUND'' [blank_id (i7_id r)] (Some (lane r))
                 (Some (strip (sample_id r)))]"
    if n: "normalize_seq (i7 r) = None" and 1: "blank_id (i7_id r) \<noteq> []"
      and 2: "blank_id (i5_id r) = blank_id (i7_id r)"
      and l: "pl = None \<or> pl = Some t \<and> map_of t (blank_id (i7_id r)) = None"
  proof -
    from n have nb: "(normalize_seq (i7 r) = None \<and> ObjectColumn = ObjectColumn)
        \<or> (normalize_seq (i5 r) = None \<and> k5 = ObjectColumn)" by simp
    from l show ?thesis
    proof
      assume "pl = None"
      then show ?thesis using n by (simp add: resolve_one_paired[OF nb 1 2])
    next
      assume "pl = Some t \<and> map_of t (blank_id (i7_id r)) = None"
      then show ?thesis using n by (simp add: resolve_one_paired[OF nb 1 2])
    qed
  qed
  show ?thesis
    apply (rule conjI)
     apply (rule impI, erule part1)
    apply (rule impI, elim conjE, rule part2; assumption)
    done
qed

definition lone_row :: "string \<Rightarrow> string \<Rightarrow> sample_row" where
  "lone_row a b = \<lparr>lane = 3, sample_id = ''S1'', project_id = ''P1'', i7_id = a, i5_id = b,
                   i7 = None, i5 = None\<rparr>"

theorem resolve_final_requirement_witness:
  "resolve_one ObjectColumn ObjectColumn [(''N701'', ''TAAGGCGA'')] [] None (lone_row ''N999'' '''')
     = (lone_row ''N999'' '''',
        [Problem ERROR ''I7_ID_NOT_FOUND'' [''N999''] (Some 3) (Some ''S1''),
         Problem ERROR ''I7_SEQUENCE_NOT_RESOLVED'' [] (Some 3) (Some ''S1'')])
   \<and> resolve_one ObjectColumn ObjectColumn [(''N701'', ''TAAGGCGA'')] [] None (lone_row ''N701'' '''')
     = ((lone_row ''N701'' '''')\<lparr>i7 := Some ''TAAGGCGA''\<rparr>, [])
   \<and> resolve_one ObjectColumn ObjectColumn [] [] (Some kit_table) (lone_row ''SI-GA-B2'' ''SI-GA-B2'')
     = (lone_row ''SI-GA-B2'' ''SI-GA-B2'',
        [Problem ERROR ''PAIR_ID_NOT_FOUND'' [''SI-GA-B2''] (Some 3) (Some ''S1'')])"
  using resolve_final_requirement [of "lone_row ''N999'' ''''" ObjectColumn "[(''N701'', ''TAAGGCGA'')]" "[]" None]
    resolve_final_requirement [of "lone_row ''N701'' ''''" ObjectColumn "[(''N701'', ''TAAGGCGA'')]" "[]" None]
    resolve_final_requirement [of "lone_row ''SI-GA-B2'' ''SI-GA-B2''" ObjectColumn "[]" "[]" "Some kit_table" kit_table]
  by code_simp

text \<open>
  The claim as written fails on the paired-kit path: the pair ID is not in the table, the
  row's i7 stays absent, and the only problem recorded is \<open>PAIR_ID_NOT_FOUND\<close>.
\<close>

theorem resolve_final_requirement_counterexample:
  "i7 (fst (resolve_one ObjectColumn ObjectColumn [] [] (Some kit_table) (lone_row ''SI-GA-B2'' ''SI-GA-B2''))) = None
   \<and> snd (resolve_one ObjectColumn ObjectColumn [] [] (Some kit_table) (lone_row ''SI-GA-B2'' ''SI-GA-B2''))
       = [Problem ERROR ''PAIR_ID_NOT_FOUND'' [''SI-GA-B2''] (Some 3) (Some ''S1'')]
   \<and> Problem ERROR ''I7_SEQUENCE_NOT_RESOLVED'' [] (Some 3) (Some ''S1'')
       \<notin> set (snd (resolve_one ObjectColumn ObjectColumn [] [] (Some kit_table) (lone_row ''SI-GA-B2'' ''SI-GA-B2'')))"
  by code_simp

text \<open>
  Where the two sequence columns are string columns, a missing sequence is read back as
  \<^verbatim>\<open>NaN\<close>, the test \<^verbatim>\<open>if i7_seq and i5_seq\<close> holds of every row, and the loop leaves every row
  as it is and records nothing.
\<close>

lemma resolve_string_columns_skip:
  "resolve_indexes StringColumn StringColumn l7 l5 pl df = (map normalize_columns df, [])"
  by (simp add: resolve_indexes_rows resolve_one_skipped comp_def)

section \<open>Properties of the lookup merger\<close>

lemma dict_set_keys: "fst ` set (dict_set d k v) = insert k (fst ` set d)"
  by (induction d k v rule: dict_set.induct) auto

lemma dict_set_distinct: "distinct (map fst d) \<Longrightarrow> distinct (map fst (dict_set d k v))"
proof (induction d k v rule: dict_set.induct)
  case (1 k v)
  then show ?case by simp
next
  case (2 k' w d k v)
  then show ?case using dict_set_keys[of d k v] by (auto simp: image_iff)
qed

lemma dict_set_new: "map_of d k = None \<Longrightarrow> set (dict_set d k v) = insert (k, v) (set d)"
  by (induction d k v rule: dict_set.induct) (auto split: if_splits)

lemma dict_set_same: "map_of d k = Some v \<Longrightarrow> dict_set d k v = d"
  by (induction d k v rule: dict_set.induct) (auto split: if_splits)

lemma distinct_single_valued: "distinct (map fst d) \<Longrightarrow> single_valued (set d)"
  by (metis eq_key_imp_eq_value single_valuedI)

lemma merge_items_Inr:
  "distinct (map fst m) \<Longrightarrow> merge_items m items = Inr m'
     \<Longrightarrow> distinct (map fst m') \<and> set m' = set m \<union> set items"
proof (induction items arbitrary: m)
  case Nil
  then show ?case by simp
next
  case (Cons kv items)
  obtain k v where kv: "kv = (k, v)" by (cases kv)
  show ?case
  proof (cases "map_of m k")
    case None
    with Cons.prems kv have r: "merge_items (dict_set m k v) items = Inr m'" by simp
    from Cons.IH[OF dict_set_distinct[OF Cons.prems(1)] r] show ?thesis
      by (auto simp: dict_set_new[OF None] kv)
  next
    case (Some w)
    with Cons.prems kv have wv: "w = v" and r: "merge_items (dict_set m k v) items = Inr m'"
      by (auto split: if_splits)
    from Some wv have s: "dict_set m k v = m" by (simp add: dict_set_same)
    from Some wv have "(k, v) \<in> set m" by (simp add: map_of_SomeD)
    with Cons.IH[OF Cons.prems(1)] r s show ?thesis by (auto simp: kv)
  qed
qed

lemma merge_items_Inl:
  "distinct (map fst m) \<Longrightarrow> merge_items m items = Inl e
     \<Longrightarrow> \<exists>k w v. e = IdCollision k w v \<and> w \<noteq> v \<and> (k, w) \<in> set m \<union> set items \<and> (k, v) \<in> set items"
proof (induction items arbitrary: m)
  case Nil
  then show ?case by simp
next
  case (Cons kv items)
  obtain k v where kv: "kv = (k, v)" by (cases kv)
  show ?case
  proof (cases "map_of m k")
    case None
    with Cons.prems kv have r: "merge_items (dict_set m k v) items = Inl e" by simp
    from Cons.IH[OF dict_set_distinct[OF Cons.prems(1)] r] show ?thesis
      by (auto simp: dict_set_new[OF None] kv)
  next
    case (Some w)
    show ?thesis
    proof (cases "w = v")
      case True
      with Some Cons.prems kv have r: "merge_items (dict_set m k v) items = Inl e" by simp
      from Some True have s: "dict_set m k v = m" by (simp add: dict_set_same)
      with Cons.IH[OF Cons.prems(1)] r show ?thesis by (auto simp: kv)
    next
      case False
      with Some Cons.prems kv have "e = IdCollision k w v" by simp
      moreover from Some have "(k, w) \<in> set m" by (simp add: map_of_SomeD)
      ultimately show ?thesis using False kv by auto
    qed
  qed
qed

lemma merge_from_Inr:
  "distinct (map fst m) \<Longrightarrow> merge_from m lks = Inr m'
     \<Longrightarrow> distinct (map fst m') \<and> set m' = set m \<union> (\<Union>lk\<in>set lks. set lk)"
proof (induction lks arbitrary: m)
  case Nil
  then show ?case by simp
next
  case (Cons lk lks)
  from Cons.prems(2) obtain m1 where a: "merge_items m lk = Inr m1" and b: "merge_from m1 lks = Inr m'"
    by (auto split: sum.splits)
  from merge_items_Inr[OF Cons.prems(1) a] have d: "distinct (map fst m1)" and s: "set m1 = set m \<union> set lk"
    by simp_all
  from Cons.IH[OF d b] s show ?case by auto
qed

lemma merge_from_Inl:
  "distinct (map fst m) \<Longrightarrow> merge_from m lks = Inl e
     \<Longrightarrow> \<exists>k w v. e = IdCollision k w v \<and> w \<noteq> v
           \<and> (k, w) \<in> set m \<union> (\<Union>lk\<in>set lks. set lk) \<and> (k, v) \<in> (\<Union>lk\<in>set lks. set lk)"
proof (induction lks arbitrary: m)
  case Nil
  then show ?case by simp
next
  case (Cons lk lks)
  show ?case
  proof (cases "merge_items m lk")
    case (Inl e')
    with Cons.prems have "e' = e" by simp
    with merge_items_Inl[OF Cons.prems(1) Inl] show ?thesis by auto
  next
    case (Inr m1)
    with Cons.prems have b: "merge_from m1 lks = Inl e" by simp
    from merge_items_Inr[OF Cons.prems(1) Inr] have d: "distinct (map fst m1)" and s: "set m1 = set m \<union> set lk"
      by simp_all
    from Cons.IH[OF d b] s show ?thesis by auto
  qed
qed

lemma agree_single_valued: "agree lks \<longleftrightarrow> single_valued (\<Union>lk\<in>set lks. set lk)"
  unfolding agree_def single_valued_def by blast

lemma merge_from_empty:
  "(\<exists>m. merge_from [] lks = Inr m) \<longleftrightarrow> agree lks"
proof
  assume "\<exists>m. merge_from [] lks = Inr m"
  then obtain m where m: "merge_from [] lks = Inr m" ..
  from merge_from_Inr[OF _ m] have "distinct (map fst m)" "set m = (\<Union>lk\<in>set lks. set lk)" by simp_all
  then show "agree lks" using distinct_single_valued[of m] by (simp add: agree_single_valued)
next
  assume a: "agree lks"
  show "\<exists>m. merge_from [] lks = Inr m"
  proof (cases "merge_from [] lks")
    case (Inl e)
    from merge_from_Inl[OF _ Inl] obtain k w v where "w \<noteq> v"
      "(k, w) \<in> (\<Union>lk\<in>set lks. set lk)" "(k, v) \<in> (\<Union>lk\<in>set lks. set lk)" by auto
    with a show ?thesis unfolding agree_single_valued single_valued_def by blast
  next
    case (Inr m)
    then show ?thesis by blast
  qed
qed


lemma agree_perm: "set lks' = set lks \<Longrightarrow> agree lks' = agree lks"
  by (simp add: agree_def)

lemma merge_from_spec:
  "((\<exists>m. merge_from [] lks = Inr m) \<longleftrightarrow> agree lks)
   \<and> (\<forall>m. merge_from [] lks = Inr m \<longrightarrow>
         distinct (map fst m) \<and> set m = (\<Union>lk\<in>set lks. set lk)
         \<and> (\<forall>lks'. mset lks' = mset lks \<longrightarrow>
               (\<exists>m'. merge_from [] lks' = Inr m' \<and> map_of m' = map_of m)))
   \<and> (\<forall>e. merge_from [] lks = Inl e \<longrightarrow>
         (\<exists>k v w a b. e = IdCollision k v w \<and> v \<noteq> w \<and> a \<in> set lks \<and> b \<in> set lks
            \<and> (k, v) \<in> set a \<and> (k, w) \<in> set b))"
proof (intro conjI allI impI)
  show "(\<exists>m. merge_from [] lks = Inr m) \<longleftrightarrow> agree lks" by (rule merge_from_empty)
next
  fix m assume m: "merge_from [] lks = Inr m"
  from merge_from_Inr[OF _ m] show "distinct (map fst m)" by simp
next
  fix m assume m: "merge_from [] lks = Inr m"
  from merge_from_Inr[OF _ m] show "set m = (\<Union>lk\<in>set lks. set lk)" by simp
next
  fix m lks' assume m: "merge_from [] lks = Inr m" and p: "mset lks' = mset lks"
  from p have sp: "set lks' = set lks" by (rule mset_eq_setD)
  from m have "agree lks" using merge_from_empty by blast
  then have "agree lks'" using agree_perm[OF sp] by simp
  then obtain m' where m': "merge_from [] lks' = Inr m'" using merge_from_empty by blast
  from merge_from_Inr[OF _ m] have 1: "distinct (map fst m)" "set m = (\<Union>lk\<in>set lks. set lk)" by simp_all
  from merge_from_Inr[OF _ m'] have 2: "distinct (map fst m')" "set m' = (\<Union>lk\<in>set lks'. set lk)" by simp_all
  from 1 2 sp have "map_of m' = map_of m" by (simp add: map_of_inject_set)
  with m' show "\<exists>m'. merge_from [] lks' = Inr m' \<and> map_of m' = map_of m" by blast
next
  fix e assume e: "merge_from [] lks = Inl e"
  from merge_from_Inl[OF _ e] obtain k w v where "e = IdCollision k w v" "w \<noteq> v"
      "(k, w) \<in> (\<Union>lk\<in>set lks. set lk)" "(k, v) \<in> (\<Union>lk\<in>set lks. set lk)" by auto
  then show "\<exists>k v w a b. e = IdCollision k v w \<and> v \<noteq> w \<and> a \<in> set lks \<and> b \<in> set lks
            \<and> (k, v) \<in> set a \<and> (k, w) \<in> set b" by blast
qed

text \<open>
  C5. Merging a sequence of single-index lookups, or of paired lookups, succeeds exactly
  when every ID has one value throughout the sources. The merged dictionary then has each
  ID once, holds exactly the entries of the sources, and has the same content for every
  reordering of the sources. A failure is an \<open>IdCollision\<close> that names an ID and two
  different values the sources give it.
\<close>

theorem merge_lookups_union:
  fixes lks :: "single_lookup list" and pks :: "pair_lookup list"
  shows
  "((\<exists>m. merge_single_lookups lks = Inr m) \<longleftrightarrow> agree lks)
   \<and> (\<forall>m. merge_single_lookups lks = Inr m \<longrightarrow>
         distinct (map fst m) \<and> set m = (\<Union>lk\<in>set lks. set lk)
         \<and> (\<forall>lks'. mset lks' = mset lks \<longrightarrow>
               (\<exists>m'. merge_single_lookups lks' = Inr m' \<and> map_of m' = map_of m)))
   \<and> (\<forall>e. merge_single_lookups lks = Inl e \<longrightarrow>
         (\<exists>k v w a b. e = IdCollision k v w \<and> v \<noteq> w \<and> a \<in> set lks \<and> b \<in> set lks
            \<and> (k, v) \<in> set a \<and> (k, w) \<in> set b))
   \<and> ((\<exists>m. merge_pair_lookups pks = Inr m) \<longleftrightarrow> agree pks)
   \<and> (\<forall>m. merge_pair_lookups pks = Inr m \<longrightarrow>
         distinct (map fst m) \<and> set m = (\<Union>lk\<in>set pks. set lk)
         \<and> (\<forall>pks'. mset pks' = mset pks \<longrightarrow>
               (\<exists>m'. merge_pair_lookups pks' = Inr m' \<and> map_of m' = map_of m)))
   \<and> (\<forall>e. merge_pair_lookups pks = Inl e \<longrightarrow>
         (\<exists>k v w a b. e = IdCollision k v w \<and> v \<noteq> w \<and> a \<in> set pks \<and> b \<in> set pks
            \<and> (k, v) \<in> set a \<and> (k, w) \<in> set b))"
proof -
  note a = merge_from_spec[of lks] and b = merge_from_spec[of pks]
  show ?thesis
    unfolding merge_single_lookups_def merge_pair_lookups_def
    by (intro conjI a[THEN conjunct1] a[THEN conjunct2, THEN conjunct1] a[THEN conjunct2, THEN conjunct2]
        b[THEN conjunct1] b[THEN conjunct2, THEN conjunct1] b[THEN conjunct2, THEN conjunct2])
qed


theorem merge_lookups_union_witness:
  "merge_single_lookups [[(''N701'', ''TAAGGCGA''), (''N702'', ''CGTACTAG'')], [(''N702'', ''CGTACTAG'')]]
     = Inr [(''N701'', ''TAAGGCGA''), (''N702'', ''CGTACTAG'')]
   \<and> agree [[(''N701'', ''TAAGGCGA''), (''N702'', ''CGTACTAG'')], [(''N702'', ''CGTACTAG'')]]
   \<and> merge_single_lookups [[(''N702'', ''CGTACTAG'')], [(''N701'', ''TAAGGCGA''), (''N702'', ''CGTACTAG'')]]
     = Inr [(''N702'', ''CGTACTAG''), (''N701'', ''TAAGGCGA'')]
   \<and> merge_single_lookups [[(''N701'', ''TAAGGCGA'')], [(''N701'', ''TAAGGCGT'')]]
     = Inl (IdCollision ''N701'' ''TAAGGCGA'' ''TAAGGCGT'')
   \<and> \<not> agree [[(''N701'', ''TAAGGCGA'')], [(''N701'', ''TAAGGCGT'')]]
   \<and> merge_pair_lookups [[(''SI-GA-A1'', (''ACGTACGT'', ''TTGGCCAA''))], [(''SI-GA-A1'', (''ACGTACGT'', ''TTGGCCAA''))]]
     = Inr [(''SI-GA-A1'', (''ACGTACGT'', ''TTGGCCAA''))]
   \<and> merge_pair_lookups [[(''SI-GA-A1'', (''ACGTACGT'', ''TTGGCCAA''))], [(''SI-GA-A1'', (''ACGTACGT'', ''TTGGCCAT''))]]
     = Inl (IdCollision ''SI-GA-A1'' (''ACGTACGT'', ''TTGGCCAA'') (''ACGTACGT'', ''TTGGCCAT''))"
proof -
  let ?a = "[[(''N701'', ''TAAGGCGA''), (''N702'', ''CGTACTAG'')], [(''N702'', ''CGTACTAG'')]] :: single_lookup list"
  let ?b = "[[(''N701'', ''TAAGGCGA'')], [(''N701'', ''TAAGGCGT'')]] :: single_lookup list"
  have 1: "merge_single_lookups ?a = Inr [(''N701'', ''TAAGGCGA''), (''N702'', ''CGTACTAG'')]"
    by code_simp
  have 2: "merge_single_lookups [[(''N702'', ''CGTACTAG'')], [(''N701'', ''TAAGGCGA''), (''N702'', ''CGTACTAG'')]]
     = Inr [(''N702'', ''CGTACTAG''), (''N701'', ''TAAGGCGA'')]"
    by code_simp
  have 3: "merge_single_lookups ?b = Inl (IdCollision ''N701'' ''TAAGGCGA'' ''TAAGGCGT'')"
    by code_simp
  have 4: "merge_pair_lookups [[(''SI-GA-A1'', (''ACGTACGT'', ''TTGGCCAA''))], [(''SI-GA-A1'', (''ACGTACGT'', ''TTGGCCAA''))]]
     = Inr [(''SI-GA-A1'', (''ACGTACGT'', ''TTGGCCAA''))]"
    by code_simp
  have 5: "merge_pair_lookups [[(''SI-GA-A1'', (''ACGTACGT'', ''TTGGCCAA''))], [(''SI-GA-A1'', (''ACGTACGT'', ''TTGGCCAT''))]]
     = Inl (IdCollision ''SI-GA-A1'' (''ACGTACGT'', ''TTGGCCAA'') (''ACGTACGT'', ''TTGGCCAT''))"
    by code_simp
  have i6: "(\<exists>m. merge_single_lookups ?a = Inr m) \<longleftrightarrow> agree ?a"
    using merge_lookups_union[of ?a "[]"] by (rule conjunct1)
  have "\<exists>m. merge_single_lookups ?a = Inr m" using 1 by (rule exI)
  with i6 have 6: "agree ?a" by (rule iffD1)
  have i7: "(\<exists>m. merge_single_lookups ?b = Inr m) \<longleftrightarrow> agree ?b"
    using merge_lookups_union[of ?b "[]"] by (rule conjunct1)
  have 7: "\<not> agree ?b"
  proof
    assume "agree ?b"
    with i7 have "\<exists>m. merge_single_lookups ?b = Inr m" by (rule iffD2)
    then obtain m where "merge_single_lookups ?b = Inr m" ..
    then have "Inl (IdCollision ''N701'' ''TAAGGCGA'' ''TAAGGCGT'') = (Inr m :: string merge_error + single_lookup)"
      by (simp only: 3)
    then show False by (simp only: sum.distinct)
  qed
  show ?thesis by (intro conjI 1 2 3 4 5 6 7)
qed

section \<open>Properties of lane expansion\<close>

lemma digits_not_n: "list_all (\<lambda>d. lower_char d \<noteq> CHR ''n'') ''12345678''"
  by code_simp

lemma lane_pattern_not_blank: "lane_pattern c \<Longrightarrow> \<not> blank_cell c"
proof -
  assume "lane_pattern c"
  then obtain d cs where c: "c = d # cs" and d: "lane_digit d"
    by (auto simp: lane_pattern_def split: list.splits)
  from d digits_not_n have "lower_char d \<noteq> CHR ''n''"
    unfolding lane_digit_def list_all_iff by blast
  with c show ?thesis by (auto simp: blank_cell_def lower_def)
qed

lemma enumerate_filter_empty:
  "map fst (filter (\<lambda>(i, c). P c) (zip [0..<length s] s)) = [] \<longleftrightarrow> (\<forall>c\<in>set s. \<not> P c)"
proof -
  have "set (map snd (zip [0..<length s] s)) = set s" by (simp add: map_snd_zip)
  then have "(\<forall>c\<in>set s. \<not> P c) \<longleftrightarrow> (\<forall>p\<in>set (zip [0..<length s] s). \<not> P (snd p))"
    by (metis (no_types, lifting) image_iff set_map)
  then show ?thesis by (auto simp: filter_empty_conv)
qed

lemma expand_lanes_cases:
  "expand_lanes df =
     (let s = map (\<lambda>r. strip (fst r)) df;
          bad = map fst (filter (\<lambda>(i, c). c = [] \<or> lower c = ''nan'') (zip [0..<length s] s));
          bad_fmt = filter (\<lambda>r. \<not> lane_pattern (strip (fst r))) df;
          lanes = map (re_split []) s;
          bad_rows = map fst (filter (\<lambda>(i, xs). \<not> distinct xs) (zip [0..<length lanes] lanes))
      in if \<exists>r\<in>set df. blank_cell (strip (fst r)) then Inl (LaneEmpty (take 20 bad) (length bad > 20))
         else if \<exists>r\<in>set df. \<not> lane_pattern (strip (fst r)) then
           Inl (LaneFormatInvalid (map fst (take 10 bad_fmt)))
         else if \<exists>r\<in>set df. \<not> distinct (re_split [] (strip (fst r))) then
           Inl (LaneDuplicateInCell (take 20 bad_rows) (length bad_rows > 20))
         else Inr (concat (map (\<lambda>r. map (\<lambda>x. (int_of_text x, snd r)) (re_split [] (strip (fst r)))) df)))"
proof -
  let ?s = "map (\<lambda>r. strip (fst r)) df"
  let ?lanes = "map (re_split []) ?s"
  have 1: "map fst (filter (\<lambda>(i, c). c = [] \<or> lower c = ''nan'') (zip [0..<length ?s] ?s)) \<noteq> []
            \<longleftrightarrow> (\<exists>r\<in>set df. blank_cell (strip (fst r)))"
    using enumerate_filter_empty[of "\<lambda>c. c = [] \<or> lower c = ''nan''" ?s]
    by (auto simp: blank_cell_def)
  have 2: "filter (\<lambda>r. \<not> lane_pattern (strip (fst r))) df \<noteq> [] \<longleftrightarrow> (\<exists>r\<in>set df. \<not> lane_pattern (strip (fst r)))"
    by (auto simp: filter_empty_conv)
  have 3: "map fst (filter (\<lambda>(i, xs). \<not> distinct xs) (zip [0..<length ?lanes] ?lanes)) \<noteq> []
            \<longleftrightarrow> (\<exists>r\<in>set df. \<not> distinct (re_split [] (strip (fst r))))"
    using enumerate_filter_empty[of "\<lambda>xs. \<not> distinct xs" ?lanes] by auto
  have 4: "concat (map (\<lambda>(xs, r). map (\<lambda>x. (int_of_text x, snd r)) xs) (zip ?lanes df))
           = concat (map (\<lambda>r. map (\<lambda>x. (int_of_text x, snd r)) (re_split [] (strip (fst r)))) df)"
    by (simp add: zip_map1 zip_same_conv_map comp_def)
  show ?thesis
    unfolding expand_lanes_def Let_def
    by (simp only: 1 2 3 4)
qed


lemma digits_not_sep: "list_all (\<lambda>d. \<not> is_sep d) ''12345678''"
  by code_simp

lemma digits_value: "list_all (\<lambda>d. 1 \<le> int_of_text [d] \<and> int_of_text [d] \<le> 8) ''12345678''"
  by code_simp

lemma lane_digit_not_sep: "lane_digit d \<Longrightarrow> \<not> is_sep d"
  using digits_not_sep unfolding lane_digit_def list_all_iff by blast

lemma lane_digit_value: "lane_digit d \<Longrightarrow> 1 \<le> int_of_text [d] \<and> int_of_text [d] \<le> 8"
  using digits_value unfolding lane_digit_def list_all_iff by blast

lemma in_sep_next:
  "in_sep cs \<Longrightarrow> \<exists>d rest. dropWhile is_sep cs = d # rest \<and> lane_digit d \<and> after_digit rest"
proof (induction cs)
  case Nil
  then show ?case by simp
next
  case (Cons c cs)
  then show ?case by (cases "is_sep c") (auto simp: lane_digit_not_sep)
qed

lemma re_split_tokens:
  "after_digit cs \<Longrightarrow> set (re_split cur cs) \<subseteq> insert (rev cur) {[d] | d. lane_digit d}"
proof (induction "length cs" arbitrary: cs cur rule: less_induct)
  case less
  show ?case
  proof (cases cs)
    case Nil
    then show ?thesis by simp
  next
    case (Cons c cs')
    with less.prems have c: "is_sep c" and i: "in_sep cs'" by simp_all
    from in_sep_next[OF i] obtain d rest where
      dw: "dropWhile is_sep cs' = d # rest" and d: "lane_digit d" and a: "after_digit rest" by blast
    have "length (dropWhile is_sep cs') \<le> length cs'" by (rule length_dropWhile_le)
    with dw Cons have len: "length rest < length cs" by simp
    from less.hyps[OF len a, of "[d]"] have "set (re_split [d] rest) \<subseteq> insert [d] {[d] | d. lane_digit d}"
      by simp
    with d have "set (re_split [d] rest) \<subseteq> {[d] | d. lane_digit d}" by auto
    moreover have "re_split cur cs = rev cur # re_split [d] rest"
      using Cons c dw lane_digit_not_sep[OF d] by simp
    ultimately show ?thesis by auto
  qed
qed

lemma lane_pattern_tokens:
  assumes "lane_pattern s" and "t \<in> set (re_split [] s)"
  shows "1 \<le> int_of_text t \<and> int_of_text t \<le> 8"
proof -
  from assms(1) obtain d cs where s: "s = d # cs" and d: "lane_digit d" and a: "after_digit cs"
    by (auto simp: lane_pattern_def split: list.splits)
  have "re_split [] s = re_split [d] cs" using s lane_digit_not_sep[OF d] by simp
  with re_split_tokens[OF a, of "[d]"] assms(2) d obtain d' where "t = [d']" "lane_digit d'"
    by auto
  then show ?thesis using lane_digit_value by simp
qed


lemma cell_124:
  "strip ''1,2,4'' = ''1,2,4''" "\<not> blank_cell ''1,2,4''" "lane_pattern ''1,2,4''"
  "re_split [] ''1,2,4'' = [''1'', ''2'', ''4'']"
  "int_of_text ''1'' = 1" "int_of_text ''2'' = 2" "int_of_text ''4'' = 4"
  by code_simp+

lemma cell_112:
  "strip ''1,1,2'' = ''1,1,2''" "\<not> blank_cell ''1,1,2''" "lane_pattern ''1,1,2''"
  "re_split [] ''1,1,2'' = [''1'', ''1'', ''2'']"
  by code_simp+


lemma expand_124: "expand_lanes [(''1,2,4'', x)] = Inr [(1, x), (2, x), (4, x)]"
  by (simp add: expand_lanes_cases cell_124 del: re_split.simps)

lemma expand_112: "expand_lanes [(''1,1,2'', x)] = Inl (LaneDuplicateInCell [0] False)"
  by (simp add: expand_lanes_cases cell_112 del: re_split.simps)

lemma expand_lanes_empty:
  "\<exists>r\<in>set df. blank_cell (strip (fst r)) \<Longrightarrow> \<exists>rows more. expand_lanes df = Inl (LaneEmpty rows more)"
  unfolding expand_lanes_cases Let_def by (simp only: if_True) blast

lemma expand_lanes_format:
  "\<forall>r\<in>set df. \<not> blank_cell (strip (fst r)) \<Longrightarrow> \<exists>r\<in>set df. \<not> lane_pattern (strip (fst r))
     \<Longrightarrow> \<exists>cells. expand_lanes df = Inl (LaneFormatInvalid cells)"
proof -
  assume a: "\<forall>r\<in>set df. \<not> blank_cell (strip (fst r))" and b: "\<exists>r\<in>set df. \<not> lane_pattern (strip (fst r))"
  from a have a': "\<not> (\<exists>r\<in>set df. blank_cell (strip (fst r)))" by blast
  show ?thesis unfolding expand_lanes_cases Let_def by (simp only: a' b if_True if_False) blast
qed

lemma expand_lanes_duplicate:
  "\<forall>r\<in>set df. lane_pattern (strip (fst r)) \<Longrightarrow> \<exists>r\<in>set df. \<not> distinct (re_split [] (strip (fst r)))
     \<Longrightarrow> \<exists>rows more. expand_lanes df = Inl (LaneDuplicateInCell rows more)"
proof -
  assume a: "\<forall>r\<in>set df. lane_pattern (strip (fst r))"
    and b: "\<exists>r\<in>set df. \<not> distinct (re_split [] (strip (fst r)))"
  from a have a1: "\<not> (\<exists>r\<in>set df. blank_cell (strip (fst r)))" using lane_pattern_not_blank by blast
  from a have a2: "\<not> (\<exists>r\<in>set df. \<not> lane_pattern (strip (fst r)))" by blast
  show ?thesis unfolding expand_lanes_cases Let_def by (simp only: a1 a2 b if_True if_False) blast
qed

lemma expand_lanes_ok:
  assumes "expand_lanes df = Inr out"
  shows "\<forall>r\<in>set df. lane_pattern (strip (fst r)) \<and> distinct (re_split [] (strip (fst r)))"
    and "out = concat (map (\<lambda>r. map (\<lambda>t. (int_of_text t, snd r)) (re_split [] (strip (fst r)))) df)"
proof -
  have 1: "\<not> (\<exists>r\<in>set df. blank_cell (strip (fst r)))"
    using assms expand_lanes_empty[of df] by auto
  then have n1: "\<forall>r\<in>set df. \<not> blank_cell (strip (fst r))" by blast
  have 2: "\<not> (\<exists>r\<in>set df. \<not> lane_pattern (strip (fst r)))"
    using assms expand_lanes_format[OF n1] by auto
  then have n2: "\<forall>r\<in>set df. lane_pattern (strip (fst r))" by blast
  have 3: "\<not> (\<exists>r\<in>set df. \<not> distinct (re_split [] (strip (fst r))))"
    using assms expand_lanes_duplicate[OF n2] by auto
  from n2 3 show "\<forall>r\<in>set df. lane_pattern (strip (fst r)) \<and> distinct (re_split [] (strip (fst r)))"
    by blast
  from assms show "out = concat (map (\<lambda>r. map (\<lambda>t. (int_of_text t, snd r)) (re_split [] (strip (fst r)))) df)"
    unfolding expand_lanes_cases Let_def by (simp only: 1 2 3 if_False sum.inject)
qed


text \<open>
  C6. The cell "1,2,4" expands to three rows with lanes 1, 2 and 4, each carrying the source
  row's other columns unchanged; the cell "1,1,2" fails with the duplicate-in-cell error. In
  any table whose stripped cells all match the lane pattern, a cell that repeats a lane
  makes expansion fail with the duplicate-in-cell error. A table with a stripped cell that
  does not match the pattern is rejected: with the empty-lane error when some cell is blank
  or "nan", with the format error otherwise. When expansion succeeds every cell matched
  without a repeat, the result is one copy of each row per listed lane in textual order,
  and every lane is an integer from 1 to 8.
\<close>

theorem expand_lanes_cells:
  "expand_lanes [(''1,2,4'', x)] = Inr [(1, x), (2, x), (4, x)]
   \<and> expand_lanes [(''1,1,2'', x)] = Inl (LaneDuplicateInCell [0] False)
   \<and> ((\<forall>r\<in>set df. lane_pattern (strip (fst r)))
        \<and> (\<exists>r\<in>set df. \<not> distinct (re_split [] (strip (fst r))))
      \<longrightarrow> (\<exists>rows more. expand_lanes df = Inl (LaneDuplicateInCell rows more)))
   \<and> ((\<exists>r\<in>set df. \<not> lane_pattern (strip (fst r)))
      \<longrightarrow> (\<exists>e. expand_lanes df = Inl e)
          \<and> ((\<exists>r\<in>set df. blank_cell (strip (fst r)))
               \<longrightarrow> (\<exists>rows more. expand_lanes df = Inl (LaneEmpty rows more)))
          \<and> ((\<forall>r\<in>set df. \<not> blank_cell (strip (fst r)))
               \<longrightarrow> (\<exists>cells. expand_lanes df = Inl (LaneFormatInvalid cells))))
   \<and> (\<forall>out. expand_lanes df = Inr out
      \<longrightarrow> out = concat (map (\<lambda>r. map (\<lambda>t. (int_of_text t, snd r)) (re_split [] (strip (fst r)))) df)
          \<and> (\<forall>r\<in>set df. lane_pattern (strip (fst r)) \<and> distinct (re_split [] (strip (fst r))))
          \<and> (\<forall>p\<in>set out. 1 \<le> fst p \<and> fst p \<le> 8))"
proof -
  have c3: "(\<forall>r\<in>set df. lane_pattern (strip (fst r)))
        \<and> (\<exists>r\<in>set df. \<not> distinct (re_split [] (strip (fst r))))
      \<longrightarrow> (\<exists>rows more. expand_lanes df = Inl (LaneDuplicateInCell rows more))"
    using expand_lanes_duplicate[of df] by blast
  have c4: "(\<exists>r\<in>set df. \<not> lane_pattern (strip (fst r)))
      \<longrightarrow> (\<exists>e. expand_lanes df = Inl e)
          \<and> ((\<exists>r\<in>set df. blank_cell (strip (fst r)))
               \<longrightarrow> (\<exists>rows more. expand_lanes df = Inl (LaneEmpty rows more)))
          \<and> ((\<forall>r\<in>set df. \<not> blank_cell (strip (fst r)))
               \<longrightarrow> (\<exists>cells. expand_lanes df = Inl (LaneFormatInvalid cells)))"
    using expand_lanes_empty[of df] expand_lanes_format[of df] by blast
  have c5: "\<forall>out. expand_lanes df = Inr out
      \<longrightarrow> out = concat (map (\<lambda>r. map (\<lambda>t. (int_of_text t, snd r)) (re_split [] (strip (fst r)))) df)
          \<and> (\<forall>r\<in>set df. lane_pattern (strip (fst r)) \<and> distinct (re_split [] (strip (fst r))))
          \<and> (\<forall>p\<in>set out. 1 \<le> fst p \<and> fst p \<le> 8)"
  proof (intro allI impI conjI)
    fix out assume o: "expand_lanes df = Inr out"
    show "out = concat (map (\<lambda>r. map (\<lambda>t. (int_of_text t, snd r)) (re_split [] (strip (fst r)))) df)"
      by (rule expand_lanes_ok(2)[OF o])
    show "\<forall>r\<in>set df. lane_pattern (strip (fst r)) \<and> distinct (re_split [] (strip (fst r)))"
      by (rule expand_lanes_ok(1)[OF o])
    show "\<forall>p\<in>set out. 1 \<le> fst p \<and> fst p \<le> 8"
    proof
      fix p assume "p \<in> set out"
      then have "p \<in> set (concat (map (\<lambda>r. map (\<lambda>t. (int_of_text t, snd r)) (re_split [] (strip (fst r)))) df))"
        using expand_lanes_ok(2)[OF o] by simp
      then obtain r t where r: "r \<in> set df" and t: "t \<in> set (re_split [] (strip (fst r)))"
        and p: "p = (int_of_text t, snd r)" by auto
      from expand_lanes_ok(1)[OF o] r have "lane_pattern (strip (fst r))" by blast
      from lane_pattern_tokens[OF this t] p show "1 \<le> fst p \<and> fst p \<le> 8" by simp
    qed
  qed
  show ?thesis by (intro conjI expand_124 expand_112 c3 c4 c5)
qed

theorem expand_lanes_cells_witness:
  "expand_lanes [(''3'', ''a''), ('' 1, 2  4 '', ''b'')] = Inr [(3, ''a''), (1, ''b''), (2, ''b''), (4, ''b'')]
   \<and> expand_lanes [(''3'', ''a''), (''1,1,2'', ''b'')] = Inl (LaneDuplicateInCell [1] False)
   \<and> expand_lanes [(''3'', ''a''), (''1,9'', ''b'')] = Inl (LaneFormatInvalid [''1,9''])
   \<and> expand_lanes [(''1,'', ''a'')] = Inl (LaneFormatInvalid [''1,''])
   \<and> expand_lanes [(''3'', ''a''), ('' NaN'', ''b'')] = Inl (LaneEmpty [1] False)"
proof -
  have 1: "expand_lanes [(''3'', ''a''), ('' 1, 2  4 '', ''b'')] = Inr [(3, ''a''), (1, ''b''), (2, ''b''), (4, ''b'')]"
    by code_simp
  have 2: "expand_lanes [(''3'', ''a''), (''1,1,2'', ''b'')] = Inl (LaneDuplicateInCell [1] False)"
    by code_simp
  have 3: "expand_lanes [(''3'', ''a''), (''1,9'', ''b'')] = Inl (LaneFormatInvalid [''1,9''])"
    by code_simp
  have 4: "expand_lanes [(''1,'', ''a'')] = Inl (LaneFormatInvalid [''1,''])"
    by code_simp
  have 5: "expand_lanes [(''3'', ''a''), ('' NaN'', ''b'')] = Inl (LaneEmpty [1] False)"
    by code_simp
  show ?thesis
    using expand_lanes_cells [of "''a''" "[(''3'', ''a''), ('' 1, 2  4 '', ''b'')]"]
      expand_lanes_cells [of "''a''" "[(''3'', ''a''), (''1,1,2'', ''b'')]"]
      expand_lanes_cells [of "''a''" "[(''3'', ''a''), ('' NaN'', ''b'')]"]
    by (intro conjI 1 2 3 4 5)
qed

section \<open>Properties of the table loaders\<close>

lemma pd_unique_acc:
  "set (foldl (\<lambda>seen x. if x \<in> set seen then seen else seen @ [x]) acc xs) = set acc \<union> set xs
   \<and> (distinct acc \<longrightarrow> distinct (foldl (\<lambda>seen x. if x \<in> set seen then seen else seen @ [x]) acc xs))"
  by (induction xs arbitrary: acc) auto

lemma pd_unique_set [simp]: "set (pd_unique xs) = set xs"
  using pd_unique_acc[of "[]" xs] by (simp add: pd_unique_def)

lemma pd_unique_distinct [simp]: "distinct (pd_unique xs)"
  using pd_unique_acc[of "[]" xs] by (simp add: pd_unique_def)

lemma pd_unique_snoc:
  "pd_unique (xs @ [x]) = (if x \<in> set xs then pd_unique xs else pd_unique xs @ [x])"
proof -
  have "pd_unique (xs @ [x]) = (if x \<in> set (pd_unique xs) then pd_unique xs else pd_unique xs @ [x])"
    by (simp add: pd_unique_def)
  then show ?thesis by simp
qed

text \<open>\<^verbatim>\<open>unique()\<close> lists the distinct values in the order of their first occurrence.\<close>

lemma pd_unique_first: "pd_unique xs = rev (remdups (rev xs))"
proof (induction xs rule: rev_induct)
  case Nil
  show ?case by (simp add: pd_unique_def)
next
  case (snoc x xs)
  then show ?case by (simp add: pd_unique_snoc)
qed

lemma pd_unique_length: "length (pd_unique xs) = card (set xs)"
  using distinct_card[OF pd_unique_distinct, of xs] by simp

lemma duplicated_all_fun: "duplicated_all xs = (\<lambda>x. 1 < count_list xs x)"
  by (rule ext) (simp add: duplicated_all_def)

lemma load_single_failure:
  assumes "load_single_index_table k df = Inl e"
  shows "(let out = single_rows k df;
              ids = map fst out;
              seqs = map snd out;
              offending =
                (case e of
                   MissingSequence _ _ \<Rightarrow> [i. (i, s) \<leftarrow> out, s = None]
                 | DuplicateId _ _ \<Rightarrow> filter (\<lambda>i. 1 < count_list ids i) ids
                 | DuplicateSequence _ _ \<Rightarrow> [t. Some t \<leftarrow> filter (\<lambda>s. 1 < count_list seqs s) seqs])
          in listed e = take 20 (rev (remdups (rev offending)))
             \<and> truncated e = (20 < card (set offending)))"
proof -
  let ?out = "single_rows k df"
  let ?ids = "map fst ?out"
  let ?seqs = "map snd ?out"
  let ?bad = "pd_unique [i. (i, s) \<leftarrow> ?out, s = None]"
  let ?dup_ids = "pd_unique (filter (duplicated_all ?ids) ?ids)"
  let ?dup_seqs = "pd_unique [t. Some t \<leftarrow> filter (duplicated_all ?seqs) ?seqs]"
  consider (a) "list_ex (\<lambda>(i, s). s = None) ?out"
    | (b) "\<not> list_ex (\<lambda>(i, s). s = None) ?out" "list_ex (duplicated_all ?ids) ?ids"
    | (c) "\<not> list_ex (\<lambda>(i, s). s = None) ?out" "\<not> list_ex (duplicated_all ?ids) ?ids"
          "list_ex (duplicated_all ?seqs) ?seqs"
    | (d) "\<not> list_ex (\<lambda>(i, s). s = None) ?out" "\<not> list_ex (duplicated_all ?ids) ?ids"
          "\<not> list_ex (duplicated_all ?seqs) ?seqs"
    by blast
  then show ?thesis
  proof cases
    case a
    then have e: "e = MissingSequence (take 20 ?bad) (20 < length ?bad)"
      using assms unfolding load_single_index_table_def Let_def by simp
    show ?thesis
      unfolding Let_def e load_error.case load_error.sel
      by (simp only: pd_unique_first[symmetric] pd_unique_length simp_thms)
  next
    case b
    then have e: "e = DuplicateId (take 20 ?dup_ids) (20 < length ?dup_ids)"
      using assms unfolding load_single_index_table_def Let_def by simp
    show ?thesis
      unfolding Let_def e load_error.case load_error.sel duplicated_all_fun
      by (simp only: pd_unique_first[symmetric] pd_unique_length simp_thms)
  next
    case c
    then have e: "e = DuplicateSequence (take 20 ?dup_seqs) (20 < length ?dup_seqs)"
      using assms unfolding load_single_index_table_def Let_def by simp
    show ?thesis
      unfolding Let_def e load_error.case load_error.sel duplicated_all_fun
      by (simp only: pd_unique_first[symmetric] pd_unique_length simp_thms)
  next
    case d
    then show ?thesis using assms unfolding load_single_index_table_def Let_def by simp
  qed
qed

lemma load_paired_failure:
  assumes "load_paired_index_table k pf = Inl e"
  shows "(case e of
            MissingSequence _ _ \<Rightarrow>
              (let offending = [p. (p, a, b) \<leftarrow> paired_rows k pf, a = None \<or> b = None]
               in listed e = take 20 (rev (remdups (rev offending)))
                  \<and> truncated e = (20 < card (set offending)))
          | DuplicateId _ _ \<Rightarrow> True
          | DuplicateSequence _ _ \<Rightarrow> True)"
proof -
  let ?out = "paired_rows k pf"
  let ?ids = "map fst ?out"
  let ?bad = "pd_unique [p. (p, a, b) \<leftarrow> ?out, a = None \<or> b = None]"
  let ?dups = "pd_unique (filter (duplicated_all ?ids) ?ids)"
  consider (a) "list_ex (\<lambda>(p, a, b). a = None \<or> b = None) ?out"
    | (b) "\<not> list_ex (\<lambda>(p, a, b). a = None \<or> b = None) ?out" "\<not> distinct ?ids"
    | (c) "\<not> list_ex (\<lambda>(p, a, b). a = None \<or> b = None) ?out" "distinct ?ids"
    by blast
  then show ?thesis
  proof cases
    case a
    then have e: "e = MissingSequence (take 20 ?bad) (20 < length ?bad)"
      using assms unfolding load_paired_index_table_def Let_def by simp
    show ?thesis
      unfolding Let_def e load_error.case load_error.sel
      by (simp only: pd_unique_first[symmetric] pd_unique_length simp_thms)
  next
    case b
    then have e: "e = DuplicateId (take 10 ?dups) (10 < length ?dups)"
      using assms unfolding load_paired_index_table_def Let_def by simp
    show ?thesis unfolding e load_error.case by (rule TrueI)
  next
    case c
    then show ?thesis using assms unfolding load_paired_index_table_def Let_def by simp
  qed
qed

text \<open>
  C9, as the code has it. A failure of the single-index loader lists exactly the first 20
  of its distinct offending items (all of them, if fewer), in the order in which they first
  appear in the table, and carries the truncation mark exactly when more than 20 distinct
  items offend. The items are the IDs of the rows without a sequence, the IDs that occur in
  more than one row, and for the duplicate-sequence failure the sequences (not the IDs)
  that occur in more than one row. The same holds of the missing-sequence failure of the
  paired loader, whose items are the pair IDs of the rows that lack one of their two
  sequences. This holds for both kinds of ID column. The duplicate-ID failure of the paired
  loader is not covered.
\<close>

theorem load_failures_enumerate:
  "(\<forall>e. load_single_index_table k df = Inl e \<longrightarrow>
      (let out = single_rows k df;
           ids = map fst out;
           seqs = map snd out;
           offending =
             (case e of
                MissingSequence _ _ \<Rightarrow> [i. (i, s) \<leftarrow> out, s = None]
              | DuplicateId _ _ \<Rightarrow> filter (\<lambda>i. 1 < count_list ids i) ids
              | DuplicateSequence _ _ \<Rightarrow> [t. Some t \<leftarrow> filter (\<lambda>s. 1 < count_list seqs s) seqs])
       in listed e = take 20 (rev (remdups (rev offending)))
          \<and> truncated e = (20 < card (set offending))))
   \<and> (\<forall>e. load_paired_index_table k pf = Inl e \<longrightarrow>
      (case e of
         MissingSequence _ _ \<Rightarrow>
           (let offending = [p. (p, a, b) \<leftarrow> paired_rows k pf, a = None \<or> b = None]
            in listed e = take 20 (rev (remdups (rev offending)))
               \<and> truncated e = (20 < card (set offending)))
       | DuplicateId _ _ \<Rightarrow> True
       | DuplicateSequence _ _ \<Rightarrow> True))"
  by (intro conjI allI impI load_single_failure load_paired_failure)

theorem load_failures_enumerate_witness:
  "load_single_index_table ObjectColumn
       [(Some ''N701'', Some ''TAAGGCGA''), (Some ''N703'', Some ''na''), (Some ''N702'', None),
        (None, None), (Some '' N703'', None)]
     = Inl (MissingSequence [''N703'', ''N702'', ''nan''] False)
   \<and> load_single_index_table StringColumn
       [(Some ''N701'', Some ''TAAGGCGA''), (Some ''N703'', Some ''na''), (Some ''N702'', None),
        (None, None), (Some '' N703'', None)]
     = Inl (MissingSequence [''N703'', ''N702''] False)
   \<and> load_single_index_table ObjectColumn
       [(Some ''N702'', Some ''TAAGGCGA''), (Some ''N701'', Some ''CGTACTAG''),
        (Some ''N701 '', Some ''CGTACTAA''), (Some ''N702'', Some ''CGTACTAC'')]
     = Inl (DuplicateId [''N702'', ''N701''] False)
   \<and> load_single_index_table ObjectColumn (map (\<lambda>n. (Some (replicate (Suc n) CHR ''a''), None)) [0..<21])
     = Inl (MissingSequence (map (\<lambda>n. replicate (Suc n) CHR ''a'') [0..<20]) True)
   \<and> load_paired_index_table StringColumn
       [(Some ''SI-GA-B1'', Some ''ACGTACGT'', None), (Some ''SI-GA-A1'', None, Some ''TTGGCCAA'')]
     = Inl (MissingSequence [''SI-GA-B1'', ''SI-GA-A1''] False)"
proof -
  have 1: "load_single_index_table ObjectColumn
       [(Some ''N701'', Some ''TAAGGCGA''), (Some ''N703'', Some ''na''), (Some ''N702'', None),
        (None, None), (Some '' N703'', None)]
     = Inl (MissingSequence [''N703'', ''N702'', ''nan''] False)" by code_simp
  have 2: "load_single_index_table StringColumn
       [(Some ''N701'', Some ''TAAGGCGA''), (Some ''N703'', Some ''na''), (Some ''N702'', None),
        (None, None), (Some '' N703'', None)]
     = Inl (MissingSequence [''N703'', ''N702''] False)" by code_simp
  have 3: "load_single_index_table ObjectColumn
       [(Some ''N702'', Some ''TAAGGCGA''), (Some ''N701'', Some ''CGTACTAG''),
        (Some ''N701 '', Some ''CGTACTAA''), (Some ''N702'', Some ''CGTACTAC'')]
     = Inl (DuplicateId [''N702'', ''N701''] False)" by code_simp
  have 4: "load_single_index_table ObjectColumn (map (\<lambda>n. (Some (replicate (Suc n) CHR ''a''), None)) [0..<21])
     = Inl (MissingSequence (map (\<lambda>n. replicate (Suc n) CHR ''a'') [0..<20]) True)" by code_simp
  have 5: "load_paired_index_table StringColumn
       [(Some ''SI-GA-B1'', Some ''ACGTACGT'', None), (Some ''SI-GA-A1'', None, Some ''TTGGCCAA'')]
     = Inl (MissingSequence [''SI-GA-B1'', ''SI-GA-A1''] False)" by code_simp
  show ?thesis
    using load_failures_enumerate [of ObjectColumn
        "[(Some ''N701'', Some ''TAAGGCGA''), (Some ''N703'', Some ''na''), (Some ''N702'', None),
          (None, None), (Some '' N703'', None)]"
        "[(Some ''SI-GA-B1'', Some ''ACGTACGT'', None), (Some ''SI-GA-A1'', None, Some ''TTGGCCAA'')]"]
    by (intro conjI 1 2 3 4 5)
qed

text \<open>
  The claim as written fails for the duplicate-sequence failure: 21 IDs share one sequence,
  and the message lists that one sequence, no ID, and has no truncation mark.
\<close>

theorem load_failures_enumerate_counterexample:
  "length (remdups (map fst (single_rows ObjectColumn
       (map (\<lambda>n. (Some (replicate (Suc n) CHR ''a''), Some ''ACGT'')) [0..<21])))) = 21
   \<and> load_single_index_table ObjectColumn
         (map (\<lambda>n. (Some (replicate (Suc n) CHR ''a''), Some ''ACGT'')) [0..<21])
       = Inl (DuplicateSequence [''ACGT''] False)
   \<and> load_single_index_table StringColumn
         (map (\<lambda>n. (Some (replicate (Suc n) CHR ''a''), Some ''ACGT'')) [0..<21])
       = Inl (DuplicateSequence [''ACGT''] False)"
  by code_simp

text \<open>
  The duplicate-ID failure of the paired loader, evaluated: of eleven pair IDs that each
  occur twice it lists the first ten and sets the mark.
\<close>

lemma load_paired_duplicate_ids_listing:
  "load_paired_index_table ObjectColumn
       (map (\<lambda>n. (Some (replicate (Suc (n mod 11)) CHR ''a''), Some ''ACGTACGT'', Some ''TTGGCCAA'')) [0..<22])
     = Inl (DuplicateId (map (\<lambda>n. replicate (Suc n) CHR ''a'') [0..<10]) True)"
  by code_simp

section \<open>Properties of the lane validator\<close>

lemma dict_set_append: "k \<notin> fst ` set d \<Longrightarrow> dict_set d k v = d @ [(k, v)]"
  by (induction d k v rule: dict_set.induct) auto

lemma groupby_lane_keys: "map fst (groupby_lane df) = sort (remdups (map lane df))"
  by (simp add: groupby_lane_def comp_def)

lemma groupby_lane_distinct: "distinct (map fst (groupby_lane df))"
  by (simp add: groupby_lane_keys)

lemma groupby_lane_set:
  "set (groupby_lane df) = {(l, filter (\<lambda>r. lane r = l) df) | l. l \<in> lane ` set df}"
  by (auto simp: groupby_lane_def)

lemma validate_loop:
  assumes "distinct (map fst gs)" and "fst ` set m0 \<inter> fst ` set gs = {}"
  shows "foldl (\<lambda>(probs, lane_mm) (ln, td).
              (let (ps, mm) = validate_lane ln td in (probs @ ps, dict_set lane_mm ln mm)))
           (p0, m0) gs
         = (p0 @ concat (map (\<lambda>(ln, td). fst (validate_lane ln td)) gs),
            m0 @ map (\<lambda>(ln, td). (ln, snd (validate_lane ln td))) gs)"
  using assms
proof (induction gs arbitrary: p0 m0)
  case Nil
  then show ?case by simp
next
  case (Cons g gs)
  obtain ln td where g: "g = (ln, td)" by (cases g)
  from Cons.prems g have k: "ln \<notin> fst ` set m0" by auto
  have d: "distinct (map fst gs)" using Cons.prems by simp
  have i: "fst ` set (m0 @ [(ln, snd (validate_lane ln td))]) \<inter> fst ` set gs = {}"
    using Cons.prems g by auto
  show ?case
    using Cons.IH[OF d i, of "p0 @ fst (validate_lane ln td)"]
    by (simp add: g split_def Let_def dict_set_append[OF k])
qed

lemma validate_indexes_per_lane_groups:
  "validate_indexes_per_lane df =
     (concat (map (\<lambda>(ln, td). fst (validate_lane ln td)) (groupby_lane df)),
      map (\<lambda>(ln, td). (ln, snd (validate_lane ln td))) (groupby_lane df))"
  unfolding validate_indexes_per_lane_def
  using validate_loop[OF groupby_lane_distinct, of "[]" df "[]"] by simp

lemma lane_mm_keys: "fst ` set (snd (validate_indexes_per_lane df)) = lane ` set df"
proof -
  have "map fst (snd (validate_indexes_per_lane df)) = map fst (groupby_lane df)"
    by (simp add: validate_indexes_per_lane_groups comp_def split_def)
  then have "set (map fst (snd (validate_indexes_per_lane df))) = set (sort (remdups (map lane df)))"
    by (simp only: groupby_lane_keys)
  then show ?thesis by simp
qed

lemma lane_mm_lookup:
  assumes "ln \<in> lane ` set df"
  shows "map_of (snd (validate_indexes_per_lane df)) ln
         = Some (snd (validate_lane ln (filter (\<lambda>r. lane r = ln) df)))"
proof -
  let ?td = "filter (\<lambda>r. lane r = ln) df"
  let ?mm = "map (\<lambda>(ln, td). (ln, snd (validate_lane ln td))) (groupby_lane df)"
  have "(ln, ?td) \<in> set (groupby_lane df)" using assms by (auto simp: groupby_lane_set)
  then have m: "(ln, snd (validate_lane ln ?td)) \<in> set ?mm" by force
  have eq: "map fst ?mm = map fst (groupby_lane df)" by (simp add: comp_def split_def)
  have "distinct (map fst ?mm)" unfolding eq by (rule groupby_lane_distinct)
  from map_of_is_SomeI[OF this m] show ?thesis by (simp add: validate_indexes_per_lane_groups)
qed

lemma lane_problems_subset:
  assumes "ln \<in> lane ` set df"
  shows "set (fst (validate_lane ln (filter (\<lambda>r. lane r = ln) df)))
         \<subseteq> set (fst (validate_indexes_per_lane df))"
proof -
  have "(ln, filter (\<lambda>r. lane r = ln) df) \<in> set (groupby_lane df)"
    using assms by (auto simp: groupby_lane_set)
  then show ?thesis by (force simp: validate_indexes_per_lane_groups)
qed

lemma validate_lane_missing_i7:
  assumes "\<exists>r\<in>set td. normalize_seq (i7 r) = None"
  shows "validate_lane ln td =
     ([Problem ERROR ''I7_MISSING''
         (map (\<lambda>(r, x). sample_id r) (filter (\<lambda>(r, x). x = None) (zip td (map (\<lambda>r. normalize_seq (i7 r)) td))))
         (Some ln) None],
      DEFAULT_BARCODE_MISMATCHES)"
proof -
  from assms obtain r where r: "r \<in> set td" "normalize_seq (i7 r) = None" by blast
  then have "None \<in> set (map (\<lambda>r. normalize_seq (i7 r)) td)" by force
  then have "list_ex (\<lambda>x. x = None) (map (\<lambda>r. normalize_seq (i7 r)) td)"
    unfolding list_ex_iff by blast
  then show ?thesis unfolding validate_lane_def Let_def by (simp only: if_True)
qed

text \<open>
  C10. The per-lane mismatch map has an entry for exactly the lanes that occur in the
  table. A lane with a row whose i7 is missing gets the ERROR \<open>I7_MISSING\<close> and keeps the
  default tolerance, which is 1.
\<close>

theorem lane_mm_total:
  "fst ` set (snd (validate_indexes_per_lane df)) = lane ` set df
   \<and> (\<forall>r\<in>set df. \<exists>mm. map_of (snd (validate_indexes_per_lane df)) (lane r) = Some mm)
   \<and> (\<forall>r\<in>set df. normalize_seq (i7 r) = None \<longrightarrow>
         map_of (snd (validate_indexes_per_lane df)) (lane r) = Some DEFAULT_BARCODE_MISMATCHES
         \<and> DEFAULT_BARCODE_MISMATCHES = 1
         \<and> (\<exists>bad. Problem ERROR ''I7_MISSING'' bad (Some (lane r)) None
                     \<in> set (fst (validate_indexes_per_lane df))))"
proof (intro conjI ballI impI)
  show "fst ` set (snd (validate_indexes_per_lane df)) = lane ` set df" by (rule lane_mm_keys)
next
  fix r assume "r \<in> set df"
  then have "lane r \<in> lane ` set df" by simp
  from lane_mm_lookup[OF this] show "\<exists>mm. map_of (snd (validate_indexes_per_lane df)) (lane r) = Some mm"
    by blast
next
  fix r assume r: "r \<in> set df" and n: "normalize_seq (i7 r) = None"
  let ?td = "filter (\<lambda>x. lane x = lane r) df"
  from r have l: "lane r \<in> lane ` set df" by simp
  from r n have e: "\<exists>x\<in>set ?td. normalize_seq (i7 x) = None" by auto
  note v = validate_lane_missing_i7[OF e, of "lane r"]
  show "map_of (snd (validate_indexes_per_lane df)) (lane r) = Some DEFAULT_BARCODE_MISMATCHES"
    using lane_mm_lookup[OF l] v by simp
  show "DEFAULT_BARCODE_MISMATCHES = 1" by (simp add: DEFAULT_BARCODE_MISMATCHES_def)
  show "\<exists>bad. Problem ERROR ''I7_MISSING'' bad (Some (lane r)) None \<in> set (fst (validate_indexes_per_lane df))"
    using lane_problems_subset[OF l] v by auto
qed

definition bare_row :: "int \<Rightarrow> string \<Rightarrow> string option \<Rightarrow> string option \<Rightarrow> sample_row" where
  "bare_row l sid a b = \<lparr>lane = l, sample_id = sid, project_id = ''P1'', i7_id = '''', i5_id = '''',
      i7 = a, i5 = b\<rparr>"

theorem lane_mm_total_witness:
  "validate_indexes_per_lane
     [bare_row 2 ''S1'' (Some ''ACGTACGT'') None, bare_row 1 ''S2'' None (Some ''TTGGCCAA''),
      bare_row 1 ''S3'' (Some ''nan'') None, bare_row 1 ''S4'' (Some ''ACGTACGT'') None]
   = ([Problem ERROR ''I7_MISSING'' [''S2'', ''S3''] (Some 1) None], [(1, 1), (2, 1)])"
proof -
  have e: "validate_indexes_per_lane
     [bare_row 2 ''S1'' (Some ''ACGTACGT'') None, bare_row 1 ''S2'' None (Some ''TTGGCCAA''),
      bare_row 1 ''S3'' (Some ''nan'') None, bare_row 1 ''S4'' (Some ''ACGTACGT'') None]
   = ([Problem ERROR ''I7_MISSING'' [''S2'', ''S3''] (Some 1) None], [(1, 1), (2, 1)])"
    by code_simp
  show ?thesis
    using lane_mm_total [of "[bare_row 2 ''S1'' (Some ''ACGTACGT'') None, bare_row 1 ''S2'' None (Some ''TTGGCCAA''),
      bare_row 1 ''S3'' (Some ''nan'') None, bare_row 1 ''S4'' (Some ''ACGTACGT'') None]"]
    by (rule_tac e)
qed

section \<open>Properties of the run\<close>

lemma run_cases:
  "run k7 k5 ctx df i7l i5l pl =
     (let res = resolve_indexes k7 k5 i7l i5l pl df;
          vs = validate_all (fst res);
          ctx3 = ctx\<lparr>df_normalized := Some df, df_resolved := Some (fst res),
                     problems := problems ctx @ snd res @ fst vs,
                     lane_barcode_mismatches := snd vs\<rparr>
      in if list_ex (\<lambda>p. level p = ERROR) (problems ctx3) then Inr (2, ctx3)
         else if \<not> dry_run ctx then
           Inr (0, ctx3\<lparr>written := Some (sort_key lane (sort_key project_id (fst res)))\<rparr>)
         else Inr (0, ctx3))"
  by (simp add: run_def write_output_def Let_def split_def)

text \<open>
  C4. From the point where resolution starts a run always returns an exit code. The
  problems it leaves in the context are those the context held, then those of resolution,
  then those of validation. The exit code is 0 exactly when none of them is at the ERROR
  level, and 2 otherwise. With an ERROR the output is left as it was: nothing is written.
  Without one (whatever WARN and INFO problems there are) the sorted resolved table is
  written, unless the run is a dry run, which writes nothing.
\<close>

theorem run_writes_iff_no_error:
  "\<exists>code ctx'.
     run k7 k5 ctx df i7l i5l pl = Inr (code, ctx')
     \<and> problems ctx' =
         problems ctx @ snd (resolve_indexes k7 k5 i7l i5l pl df)
           @ fst (validate_all (fst (resolve_indexes k7 k5 i7l i5l pl df)))
     \<and> (code = 0 \<longleftrightarrow> \<not> (\<exists>p \<in> set (problems ctx'). level p = ERROR))
     \<and> (code = 0 \<or> code = 2)
     \<and> (code = 2 \<longrightarrow> written ctx' = written ctx)
     \<and> (code = 0 \<and> \<not> dry_run ctx \<longrightarrow>
           written ctx' = Some (sort_key lane (sort_key project_id (fst (resolve_indexes k7 k5 i7l i5l pl df)))))
     \<and> (code = 0 \<and> dry_run ctx \<longrightarrow> written ctx' = written ctx)"
  unfolding run_cases Let_def list_ex_iff by (cases "dry_run ctx") auto

definition fresh_context :: "bool \<Rightarrow> run_context" where
  "fresh_context dry = \<lparr>dry_run = dry, df_normalized = None, df_resolved = None,
      lane_barcode_mismatches = [], problems = [], written = None\<rparr>"

definition id_row :: "int \<Rightarrow> string \<Rightarrow> string \<Rightarrow> string \<Rightarrow> sample_row" where
  "id_row l sid pid a = \<lparr>lane = l, sample_id = sid, project_id = pid, i7_id = a, i5_id = '''',
      i7 = None, i5 = None\<rparr>"

definition outcome :: "run_error + (int \<times> run_context) \<Rightarrow> (int \<times> level list \<times> string list option) option" where
  "outcome res =
     (case res of
        Inl e \<Rightarrow> None
      | Inr (c, ctx) \<Rightarrow> Some (c, map level (problems ctx), map_option (map sample_id) (written ctx)))"

theorem run_writes_iff_no_error_witness:
  "outcome (run ObjectColumn ObjectColumn (fresh_context False)
       [id_row 2 ''S2'' ''P2'' ''N702'', id_row 1 ''S1'' ''P1'' ''N701'', id_row 1 ''S3'' ''P0'' ''N703'']
       [(''N701'', ''ACGTACGT''), (''N702'', ''ACGTACGA''), (''N703'', ''ACGTACCA'')] [] None)
     = Some (0, [WARN], Some [''S3'', ''S1'', ''S2''])
   \<and> outcome (run ObjectColumn ObjectColumn (fresh_context True)
       [id_row 2 ''S2'' ''P2'' ''N702'', id_row 1 ''S1'' ''P1'' ''N701'', id_row 1 ''S3'' ''P0'' ''N703'']
       [(''N701'', ''ACGTACGT''), (''N702'', ''ACGTACGA''), (''N703'', ''ACGTACCA'')] [] None)
     = Some (0, [WARN], None)
   \<and> outcome (run ObjectColumn ObjectColumn (fresh_context False)
       [id_row 2 ''S2'' ''P2'' ''N702'', id_row 1 ''S1'' ''P1'' ''N701'', id_row 1 ''S3'' ''P0'' ''N709'']
       [(''N701'', ''ACGTACGT''), (''N702'', ''ACGTACGA''), (''N703'', ''ACGTACCA'')] [] None)
     = Some (2, [ERROR, ERROR, ERROR], None)"
proof -
  have 1: "outcome (run ObjectColumn ObjectColumn (fresh_context False)
       [id_row 2 ''S2'' ''P2'' ''N702'', id_row 1 ''S1'' ''P1'' ''N701'', id_row 1 ''S3'' ''P0'' ''N703'']
       [(''N701'', ''ACGTACGT''), (''N702'', ''ACGTACGA''), (''N703'', ''ACGTACCA'')] [] None)
     = Some (0, [WARN], Some [''S3'', ''S1'', ''S2''])" by code_simp
  have 2: "outcome (run ObjectColumn ObjectColumn (fresh_context True)
       [id_row 2 ''S2'' ''P2'' ''N702'', id_row 1 ''S1'' ''P1'' ''N701'', id_row 1 ''S3'' ''P0'' ''N703'']
       [(''N701'', ''ACGTACGT''), (''N702'', ''ACGTACGA''), (''N703'', ''ACGTACCA'')] [] None)
     = Some (0, [WARN], None)" by code_simp
  have 3: "outcome (run ObjectColumn ObjectColumn (fresh_context False)
       [id_row 2 ''S2'' ''P2'' ''N702'', id_row 1 ''S1'' ''P1'' ''N701'', id_row 1 ''S3'' ''P0'' ''N709'']
       [(''N701'', ''ACGTACGT''), (''N702'', ''ACGTACGA''), (''N703'', ''ACGTACCA'')] [] None)
     = Some (2, [ERROR, ERROR, ERROR], None)" by code_simp
  show ?thesis
    using run_writes_iff_no_error [of ObjectColumn ObjectColumn "fresh_context False"
        "[id_row 2 ''S2'' ''P2'' ''N702'', id_row 1 ''S1'' ''P1'' ''N701'', id_row 1 ''S3'' ''P0'' ''N703'']"
        "[(''N701'', ''ACGTACGT''), (''N702'', ''ACGTACGA''), (''N703'', ''ACGTACCA'')]" "[]" None]
    by (intro conjI 1 2 3)
qed

end
